theory Spec2Isabelle
  imports Main
begin

section \<open>The Qt collaborators of \<open>TextFileXmlStream\<close>\<close>

text \<open>
  \<open>textfilexmlstream.cpp\<close> drives a \<open>QXmlStreamReader\<close> and a \<open>QXmlStreamWriter\<close>, formats
  its log messages with \<open>QString::arg\<close> and parses attribute values with \<open>QString::toInt\<close>.
  None of these is code of the repository; each is modelled here by the part of its
  documented behaviour that the file relies on. Strings are \<open>string\<close> (byte lists).
\<close>

subsection \<open>\<open>QString::number\<close> and \<open>QString::toInt\<close>\<close>

definition digitValue :: "char \<Rightarrow> nat option" where
  "digitValue c =
     (let n = (of_char c :: nat) in if 48 \<le> n \<and> n \<le> 57 then Some (n - 48) else None)"

definition digitChar :: "nat \<Rightarrow> char" where
  "digitChar d = char_of (48 + d)"

function natDigits :: "nat \<Rightarrow> string" where
  "natDigits n = (if n < 10 then [digitChar n] else natDigits (n div 10) @ [digitChar (n mod 10)])"
  by pat_completeness auto
termination
  by (relation "measure id") auto

declare natDigits.simps [simp del]

text \<open>\<open>QString::number(int)\<close>: the decimal digits, with a leading minus sign below zero.\<close>

definition QString_number :: "int \<Rightarrow> string" where
  "QString_number i = (if i < 0 then CHR ''-'' # natDigits (nat (- i)) else natDigits (nat i))"

definition isSpace :: "char \<Rightarrow> bool" where
  "isSpace c = (let n = (of_char c :: nat) in n = 32 \<or> (9 \<le> n \<and> n \<le> 13))"

definition trimmed :: "string \<Rightarrow> string" where
  "trimmed s = rev (dropWhile isSpace (rev (dropWhile isSpace s)))"

fun digitsValue :: "nat \<Rightarrow> string \<Rightarrow> nat option" where
  "digitsValue acc [] = Some acc"
| "digitsValue acc (c # cs) =
     (case digitValue c of None \<Rightarrow> None | Some d \<Rightarrow> digitsValue (10 * acc + d) cs)"

text \<open>
  \<open>QString::toInt(&ok)\<close> in base 10: surrounding white space is ignored, one sign is
  allowed, at least one digit is required, nothing else may follow, and the value has to
  fit a 32-bit \<open>int\<close>. \<open>None\<close> stands for \<open>ok == false\<close>.
\<close>

definition toInt :: "string \<Rightarrow> int option" where
  "toInt s =
     (let t = trimmed s;
          neg = (t \<noteq> [] \<and> hd t = CHR ''-'');
          ds = (if t \<noteq> [] \<and> (hd t = CHR ''-'' \<or> hd t = CHR ''+'') then tl t else t)
      in if ds = [] then None
         else case digitsValue 0 ds of
                None \<Rightarrow> None
              | Some v \<Rightarrow>
                  (let i = (if neg then - int v else int v)
                   in if - 2147483648 \<le> i \<and> i \<le> 2147483647 then Some i else None))"

subsection \<open>\<open>QString::arg\<close>\<close>

text \<open>
  A place marker is a percent sign followed by one or two decimal digits (\<open>%1\<close> .. \<open>%99\<close>).
  \<open>arg\<close> replaces every occurrence of the lowest numbered marker; the overload with
  several strings replaces the lowest markers by its arguments in one pass. A format
  without a marker is returned as it is. The locale flag (\<open>%L1\<close>) and field widths are
  left out: no format of this file uses them.
\<close>

datatype piece = Lit char | Marker nat string

fun parseFormat :: "string \<Rightarrow> piece list" where
  "parseFormat [] = []"
| "parseFormat [c] = [Lit c]"
| "parseFormat [c, d] =
     (case digitValue d of
        Some v \<Rightarrow> if c = CHR ''%'' then [Marker v [c, d]] else Lit c # parseFormat [d]
      | None \<Rightarrow> Lit c # parseFormat [d])"
| "parseFormat (c # d # e # cs) =
     (if c = CHR ''%'' then
        (case digitValue d of
           None \<Rightarrow> Lit c # parseFormat (d # e # cs)
         | Some v \<Rightarrow>
             (case digitValue e of
                None \<Rightarrow> Marker v [c, d] # parseFormat (e # cs)
              | Some w \<Rightarrow> Marker (10 * v + w) [c, d, e] # parseFormat cs))
      else Lit c # parseFormat (d # e # cs))"

fun markerNumbers :: "piece list \<Rightarrow> nat list" where
  "markerNumbers [] = []"
| "markerNumbers (Lit c # ps) = markerNumbers ps"
| "markerNumbers (Marker n raw # ps) = n # markerNumbers ps"

fun renderPiece :: "(nat \<times> string) list \<Rightarrow> piece \<Rightarrow> string" where
  "renderPiece subst (Lit c) = [c]"
| "renderPiece subst (Marker n raw) = (case map_of subst n of Some a \<Rightarrow> a | None \<Rightarrow> raw)"

definition multiArg :: "string \<Rightarrow> string list \<Rightarrow> string" where
  "multiArg fmt args =
     (let ps = parseFormat fmt;
          subst = zip (sort (remdups (markerNumbers ps))) args
      in concat (map (renderPiece subst) ps))"

definition QString_arg :: "string \<Rightarrow> string \<Rightarrow> string" where
  "QString_arg fmt a = multiArg fmt [a]"

definition QString_arg2 :: "string \<Rightarrow> string \<Rightarrow> string \<Rightarrow> string" where
  "QString_arg2 fmt a1 a2 = multiArg fmt [a1, a2]"

subsection \<open>\<open>QXmlStreamReader\<close>\<close>

text \<open>
  The tokens of \<open>QXmlStreamReader::TokenType\<close>, each with the data the reader exposes for
  it: the error string of \<open>Invalid\<close>, name and attributes of a start element, the name of
  an end element, the text of character data, name and replacement text of an
  unresolved entity reference.
\<close>

datatype token =
    NoToken
  | Invalid string
  | StartDocument
  | EndDocument
  | StartElement string "(string \<times> string) list"
  | EndElement string
  | Characters string
  | Comment
  | DTD
  | EntityReference string string
  | ProcessingInstruction

text \<open>
  The reader is its current token and the tokens its input still holds. \<open>readNext\<close>
  moves to the next token. Once the reader is in error it stays there, and input that
  stops short of its end is the error \<open>Premature end of document.\<close>
\<close>

record reader =
  current :: token
  pending :: "token list"

fun isInvalid :: "token \<Rightarrow> bool" where
  "isInvalid (Invalid e) = True"
| "isInvalid t = False"

definition readNext :: "reader \<Rightarrow> reader" where
  "readNext xml =
     (if isInvalid (current xml) then xml
      else case pending xml of
             [] \<Rightarrow> xml\<lparr>current := Invalid ''Premature end of document.''\<rparr>
           | t # ts \<Rightarrow> \<lparr>current = t, pending = ts\<rparr>)"

text \<open>\<open>atEnd()\<close>: the end of the document has been read, or an error has stopped the reading.\<close>

fun atEndToken :: "token \<Rightarrow> bool" where
  "atEndToken EndDocument = True"
| "atEndToken (Invalid e) = True"
| "atEndToken t = False"

definition atEnd :: "reader \<Rightarrow> bool" where
  "atEnd xml = atEndToken (current xml)"

fun isStartElementToken :: "token \<Rightarrow> bool" where
  "isStartElementToken (StartElement n as) = True"
| "isStartElementToken t = False"

definition isStartElement :: "reader \<Rightarrow> bool" where
  "isStartElement xml = isStartElementToken (current xml)"

fun isEndElementToken :: "token \<Rightarrow> bool" where
  "isEndElementToken (EndElement n) = True"
| "isEndElementToken t = False"

definition isEndElement :: "reader \<Rightarrow> bool" where
  "isEndElement xml = isEndElementToken (current xml)"

fun tokenName :: "token \<Rightarrow> string" where
  "tokenName (StartElement n as) = n"
| "tokenName (EndElement n) = n"
| "tokenName (EntityReference n t) = n"
| "tokenName t = []"

definition xmlName :: "reader \<Rightarrow> string" where
  "xmlName xml = tokenName (current xml)"

fun tokenAttributes :: "token \<Rightarrow> (string \<times> string) list" where
  "tokenAttributes (StartElement n as) = as"
| "tokenAttributes t = []"

definition attributes :: "reader \<Rightarrow> (string \<times> string) list" where
  "attributes xml = tokenAttributes (current xml)"

fun tokenErrorString :: "token \<Rightarrow> string" where
  "tokenErrorString (Invalid e) = e"
| "tokenErrorString t = []"

definition errorString :: "reader \<Rightarrow> string" where
  "errorString xml = tokenErrorString (current xml)"

text \<open>\<open>QXmlStreamAttributes\<close>: \<open>hasAttribute\<close>, and \<open>value\<close>, which is empty for a missing name.\<close>

definition hasAttribute :: "(string \<times> string) list \<Rightarrow> string \<Rightarrow> bool" where
  "hasAttribute as k = (map_of as k \<noteq> None)"

definition attrValue :: "(string \<times> string) list \<Rightarrow> string \<Rightarrow> string" where
  "attrValue as k = (case map_of as k of None \<Rightarrow> [] | Some v \<Rightarrow> v)"

text \<open>The distance of the reader from the end of its input: no function below increases it.\<close>

definition remaining :: "reader \<Rightarrow> nat" where
  "remaining xml = length (pending xml) + (if atEnd xml then 0 else 1)"

text \<open>
  \<open>readElementText()\<close>, called on a start element, reads up to the matching end element
  and returns the text in between: character data and entity references are
  concatenated, comments and processing instructions skipped. Any other token raises
  the error \<open>Expected character data.\<close> and returns the text read so far. Called on
  anything else it returns the empty string.
\<close>

function readElementText_loop :: "reader \<Rightarrow> string \<Rightarrow> string \<times> reader" where
  "readElementText_loop xml result =
     (let xml' = readNext xml in
      case current xml' of
        Characters t \<Rightarrow> readElementText_loop xml' (result @ t)
      | EntityReference n t \<Rightarrow> readElementText_loop xml' (result @ t)
      | EndElement n \<Rightarrow> (result, xml')
      | ProcessingInstruction \<Rightarrow> readElementText_loop xml' result
      | Comment \<Rightarrow> readElementText_loop xml' result
      | Invalid e \<Rightarrow> (result, xml')
      | _ \<Rightarrow> (result, xml'\<lparr>current := Invalid ''Expected character data.''\<rparr>))"
  by pat_completeness auto
termination
  by (relation "measure (\<lambda>(xml, result). length (pending xml))")
     (auto simp: readNext_def split: if_splits list.splits)

declare readElementText_loop.simps [simp del]

definition readElementText :: "reader \<Rightarrow> string \<times> reader" where
  "readElementText xml = (if isStartElement xml then readElementText_loop xml [] else ([], xml))"

section \<open>The document model\<close>

text \<open>
  Modelled from the spec: \<open>textgroup.h\<close> and \<open>textfile.h\<close> are not part of the sources.
  A \<open>TextGroup\<close> is an integer id and an ordered sequence of strings; \<open>size()\<close> is the
  number of strings and \<open>add\<close> appends one. A \<open>TextFile\<close> is a name, the flag
  \<open>indexWithCounts\<close> and an ordered sequence of groups; a fresh one has the empty name,
  the flag set and no group.
\<close>

record TextGroup =
  m_id :: int
  m_strings :: "string list"

definition TextGroup_new :: "int \<Rightarrow> TextGroup" where
  "TextGroup_new i = \<lparr>m_id = i, m_strings = []\<rparr>"

definition group_size :: "TextGroup \<Rightarrow> int" where
  "group_size g = int (length (m_strings g))"

definition group_add :: "TextGroup \<Rightarrow> string \<Rightarrow> TextGroup" where
  "group_add g s = g\<lparr>m_strings := m_strings g @ [s]\<rparr>"

record TextFile =
  m_name :: string
  m_indexWithCounts :: bool
  m_groups :: "TextGroup list"

definition TextFile_new :: TextFile where
  "TextFile_new = \<lparr>m_name = [], m_indexWithCounts = True, m_groups = []\<rparr>"

section \<open>The tag matcher\<close>

text \<open>
  The logger is the list of the messages passed to \<open>logger.error\<close>, oldest first. Every
  function returns its boolean result with the reader and the logger as it leaves them.
\<close>

type_synonym logger = "string list"

function readOpenTag_loop :: "reader \<Rightarrow> string \<Rightarrow> logger \<Rightarrow> bool \<times> reader \<times> logger" where
  "readOpenTag_loop xml tag logger =
     (if atEnd xml then (False, xml, logger @ [''Invalid XML: unexpected end of file''])
      else
        let xml' = readNext xml in
        case current xml' of
          StartDocument \<Rightarrow> readOpenTag_loop xml' tag logger
        | Comment \<Rightarrow> readOpenTag_loop xml' tag logger
        | DTD \<Rightarrow> readOpenTag_loop xml' tag logger
        | Characters t \<Rightarrow> readOpenTag_loop xml' tag logger
        | EntityReference n t \<Rightarrow> readOpenTag_loop xml' tag logger
        | ProcessingInstruction \<Rightarrow> readOpenTag_loop xml' tag logger
        | NoToken \<Rightarrow> readOpenTag_loop xml' tag logger
        | Invalid e \<Rightarrow> (False, xml', logger @ [QString_arg ''Invalid XML: %s'' (errorString xml')])
        | EndDocument \<Rightarrow> (False, xml', logger)
        | EndElement n \<Rightarrow> (False, xml', logger)
        | StartElement n as \<Rightarrow>
            if xmlName xml' = tag then (True, xml', logger)
            else (False, xml', logger @
                    [QString_arg2 ''Invalid XML: expected tag <%1>, got <%2>'' tag (xmlName xml')]))"
  by pat_completeness auto

lemma remaining_readNext_less: "\<not> atEnd xml \<Longrightarrow> remaining (readNext xml) < remaining xml"
  by (cases "current xml") (auto simp: remaining_def readNext_def atEnd_def split: list.splits)

lemma remaining_readNext_le: "remaining (readNext xml) \<le> remaining xml"
  by (cases "current xml") (auto simp: remaining_def readNext_def atEnd_def split: list.splits)

termination readOpenTag_loop
  by (relation "measure (\<lambda>(xml, tag, logger). remaining xml)")
     (auto simp: remaining_readNext_less)

declare readOpenTag_loop.simps [simp del]

definition readOpenTag :: "reader \<Rightarrow> string \<Rightarrow> logger \<Rightarrow> bool \<times> reader \<times> logger" where
  "readOpenTag xml tag logger =
     (if isStartElement xml \<and> xmlName xml = tag then (True, xml, logger)
      else readOpenTag_loop xml tag logger)"

function readCloseTag_loop :: "reader \<Rightarrow> string \<Rightarrow> logger \<Rightarrow> bool \<times> reader \<times> logger" where
  "readCloseTag_loop xml tag logger =
     (if atEnd xml
      then (False, xml, logger @ [QString_arg ''Invalid XML: end element </%1> not found'' tag])
      else
        let xml' = readNext xml in
        if isEndElement xml' \<and> xmlName xml' = tag then (True, xml', logger)
        else readCloseTag_loop xml' tag logger)"
  by pat_completeness auto
termination
  by (relation "measure (\<lambda>(xml, tag, logger). remaining xml)")
     (auto simp: remaining_readNext_less)

declare readCloseTag_loop.simps [simp del]

definition readCloseTag :: "reader \<Rightarrow> string \<Rightarrow> logger \<Rightarrow> bool \<times> reader \<times> logger" where
  "readCloseTag xml tag logger =
     (if isEndElement xml \<and> xmlName xml = tag then (True, xml, logger)
      else readCloseTag_loop xml tag logger)"

text \<open>The tokens that \<open>readOpenTag\<close> passes over.\<close>

fun skippable :: "token \<Rightarrow> bool" where
  "skippable StartDocument = True"
| "skippable Comment = True"
| "skippable DTD = True"
| "skippable (Characters t) = True"
| "skippable (EntityReference n t) = True"
| "skippable ProcessingInstruction = True"
| "skippable NoToken = True"
| "skippable t = False"

lemma readOpenTag_loop_atEnd:
  "atEnd xml \<Longrightarrow>
     readOpenTag_loop xml tag logger = (False, xml, logger @ [''Invalid XML: unexpected end of file''])"
  by (simp add: readOpenTag_loop.simps)

lemma readOpenTag_loop_skip:
  "\<not> atEnd xml \<Longrightarrow> skippable (current (readNext xml)) \<Longrightarrow>
     readOpenTag_loop xml tag logger = readOpenTag_loop (readNext xml) tag logger"
  by (cases "current (readNext xml)") (simp_all add: readOpenTag_loop.simps [of xml])

lemma readOpenTag_loop_stop:
  "\<not> atEnd xml \<Longrightarrow> \<not> skippable (current (readNext xml)) \<Longrightarrow>
     readOpenTag_loop xml tag logger =
       (case current (readNext xml) of
          Invalid e \<Rightarrow> (False, readNext xml, logger @ [QString_arg ''Invalid XML: %s'' e])
        | StartElement n as \<Rightarrow>
            if n = tag then (True, readNext xml, logger)
            else (False, readNext xml, logger @
                    [QString_arg2 ''Invalid XML: expected tag <%1>, got <%2>'' tag n])
        | _ \<Rightarrow> (False, readNext xml, logger))"
  by (cases "current (readNext xml)")
     (simp_all add: readOpenTag_loop.simps [of xml] errorString_def xmlName_def)

lemma readOpenTag_loop_remaining:
  "readOpenTag_loop xml tag logger = (ok, xml', logger') \<Longrightarrow>
     remaining xml' \<le> remaining xml \<and> (\<not> atEnd xml \<longrightarrow> remaining xml' < remaining xml)"
proof (induction "remaining xml" arbitrary: xml rule: less_induct)
  case less
  show ?case
  proof (cases "atEnd xml")
    case True
    with less.prems show ?thesis by (simp add: readOpenTag_loop_atEnd)
  next
    case False
    have lt: "remaining (readNext xml) < remaining xml"
      using False by (rule remaining_readNext_less)
    show ?thesis
    proof (cases "skippable (current (readNext xml))")
      case True
      with False less.prems
      have "readOpenTag_loop (readNext xml) tag logger = (ok, xml', logger')"
        by (simp add: readOpenTag_loop_skip)
      from less.hyps [OF lt this] lt False show ?thesis by simp
    next
      case stop: False
      with False less.prems lt show ?thesis
        by (cases "current (readNext xml)")
           (auto simp: readOpenTag_loop_stop split: if_splits)
    qed
  qed
qed

lemma readOpenTag_loop_found:
  "readOpenTag_loop xml tag logger = (True, xml', logger') \<Longrightarrow>
     isStartElement xml' \<and> xmlName xml' = tag"
proof (induction "remaining xml" arbitrary: xml rule: less_induct)
  case less
  show ?case
  proof (cases "atEnd xml")
    case True
    with less.prems show ?thesis by (simp add: readOpenTag_loop_atEnd)
  next
    case False
    have lt: "remaining (readNext xml) < remaining xml"
      using False by (rule remaining_readNext_less)
    show ?thesis
    proof (cases "skippable (current (readNext xml))")
      case True
      with False less.prems
      have "readOpenTag_loop (readNext xml) tag logger = (True, xml', logger')"
        by (simp add: readOpenTag_loop_skip)
      from less.hyps [OF lt this] show ?thesis .
    next
      case stop: False
      with False less.prems show ?thesis
        by (cases "current (readNext xml)")
           (auto simp: readOpenTag_loop_stop isStartElement_def xmlName_def split: if_splits)
    qed
  qed
qed

lemma readOpenTag_remaining:
  "readOpenTag xml tag logger = (ok, xml', logger') \<Longrightarrow> remaining xml' \<le> remaining xml"
  by (auto simp: readOpenTag_def split: if_splits dest: readOpenTag_loop_remaining)

lemma readOpenTag_found:
  "readOpenTag xml tag logger = (True, xml', logger') \<Longrightarrow>
     isStartElement xml' \<and> xmlName xml' = tag"
  by (auto simp: readOpenTag_def split: if_splits dest: readOpenTag_loop_found)

lemma readOpenTag_progress:
  "readOpenTag xml tag logger = (ok, xml', logger') \<Longrightarrow> \<not> atEnd xml \<Longrightarrow>
     \<not> (isStartElement xml \<and> xmlName xml = tag) \<Longrightarrow> remaining xml' < remaining xml"
  by (auto simp: readOpenTag_def split: if_splits dest: readOpenTag_loop_remaining)

lemma readCloseTag_loop_atEnd:
  "atEnd xml \<Longrightarrow>
     readCloseTag_loop xml tag logger =
       (False, xml, logger @ [QString_arg ''Invalid XML: end element </%1> not found'' tag])"
  by (simp add: readCloseTag_loop.simps)

lemma readCloseTag_loop_hit:
  "\<not> atEnd xml \<Longrightarrow> current (readNext xml) = EndElement tag \<Longrightarrow>
     readCloseTag_loop xml tag logger = (True, readNext xml, logger)"
  by (simp add: readCloseTag_loop.simps [of xml] isEndElement_def xmlName_def)

lemma readCloseTag_loop_miss:
  "\<not> atEnd xml \<Longrightarrow> current (readNext xml) \<noteq> EndElement tag \<Longrightarrow>
     readCloseTag_loop xml tag logger = readCloseTag_loop (readNext xml) tag logger"
  by (cases "current (readNext xml)")
     (auto simp: readCloseTag_loop.simps [of xml] isEndElement_def xmlName_def)

lemma readCloseTag_loop_remaining:
  "readCloseTag_loop xml tag logger = (ok, xml', logger') \<Longrightarrow> remaining xml' \<le> remaining xml"
proof (induction "remaining xml" arbitrary: xml rule: less_induct)
  case less
  show ?case
  proof (cases "atEnd xml")
    case True
    with less.prems show ?thesis by (simp add: readCloseTag_loop_atEnd)
  next
    case False
    have lt: "remaining (readNext xml) < remaining xml"
      using False by (rule remaining_readNext_less)
    show ?thesis
    proof (cases "current (readNext xml) = EndElement tag")
      case True
      with False less.prems lt show ?thesis by (simp add: readCloseTag_loop_hit)
    next
      case miss: False
      with False less.prems
      have "readCloseTag_loop (readNext xml) tag logger = (ok, xml', logger')"
        by (simp add: readCloseTag_loop_miss)
      from less.hyps [OF lt this] lt show ?thesis by simp
    qed
  qed
qed

lemma readCloseTag_remaining:
  "readCloseTag xml tag logger = (ok, xml', logger') \<Longrightarrow> remaining xml' \<le> remaining xml"
  by (auto simp: readCloseTag_def split: if_splits dest: readCloseTag_loop_remaining)

lemma remaining_set_Invalid: "remaining (xml\<lparr>current := Invalid e\<rparr>) \<le> remaining xml"
  by (simp add: remaining_def atEnd_def)

text \<open>The tokens that \<open>readElementText\<close> reads through, with the text each contributes.\<close>

fun textToken :: "token \<Rightarrow> string option" where
  "textToken (Characters t) = Some t"
| "textToken (EntityReference n t) = Some t"
| "textToken ProcessingInstruction = Some []"
| "textToken Comment = Some []"
| "textToken t = None"

lemma readElementText_loop_text:
  "textToken (current (readNext xml)) = Some t \<Longrightarrow>
     readElementText_loop xml result = readElementText_loop (readNext xml) (result @ t)"
  by (cases "current (readNext xml)") (auto simp: readElementText_loop.simps [of xml])

lemma readElementText_loop_stop:
  "textToken (current (readNext xml)) = None \<Longrightarrow>
     readElementText_loop xml result =
       (result, if isEndElement (readNext xml) \<or> isInvalid (current (readNext xml)) then readNext xml
                else (readNext xml)\<lparr>current := Invalid ''Expected character data.''\<rparr>)"
  by (cases "current (readNext xml)")
     (auto simp: readElementText_loop.simps [of xml] isEndElement_def)

lemma readElementText_loop_remaining:
  "readElementText_loop xml result = (text, xml') \<Longrightarrow> remaining xml' \<le> remaining (readNext xml)"
proof (induction "length (pending xml)" arbitrary: xml result rule: less_induct)
  case less
  show ?case
  proof (cases "textToken (current (readNext xml))")
    case None
    with less.prems show ?thesis
      by (auto simp: readElementText_loop_stop remaining_set_Invalid split: if_splits)
  next
    case (Some t)
    then have lt: "length (pending (readNext xml)) < length (pending xml)"
      by (cases "current xml") (auto simp: readNext_def split: list.splits)
    from Some less.prems
    have "readElementText_loop (readNext xml) (result @ t) = (text, xml')"
      by (simp add: readElementText_loop_text)
    from less.hyps [OF lt this] remaining_readNext_le [of "readNext xml"]
    show ?thesis by simp
  qed
qed

lemma readElementText_remaining:
  "readElementText xml = (text, xml') \<Longrightarrow> isStartElement xml \<Longrightarrow> remaining xml' < remaining xml"
proof -
  assume a: "readElementText xml = (text, xml')" and s: "isStartElement xml"
  from s have "\<not> atEnd xml"
    by (cases "current xml") (auto simp: isStartElement_def atEnd_def)
  then have "remaining (readNext xml) < remaining xml" by (rule remaining_readNext_less)
  moreover from a s have "remaining xml' \<le> remaining (readNext xml)"
    by (auto simp: readElementText_def dest: readElementText_loop_remaining)
  ultimately show ?thesis by simp
qed

section \<open>The group decoder\<close>

text \<open>
  The loop of \<open>readGroup\<close> over the \<open>string\<close> elements. The result of the closing
  \<open>readCloseTag\<close> is dropped, as in the source; the counter \<open>index\<close> of the source is
  never read and is left out.
\<close>

function readGroup_loop ::
  "int \<Rightarrow> TextGroup \<Rightarrow> reader \<Rightarrow> logger \<Rightarrow> bool \<times> TextGroup \<times> reader \<times> logger" where
  "readGroup_loop gid grp xml logger =
     (let (found, xml1, logger1) = readOpenTag xml ''string'' logger in
      if \<not> found then (True, grp, xml1, logger1)
      else
        let textIdString = attrValue (attributes xml1) ''id'' in
        case toInt textIdString of
          None \<Rightarrow>
            (False, grp, xml1,
             logger1 @ [QString_arg ''String ID is not an integer: %1'' textIdString])
        | Some textId \<Rightarrow>
            if textId \<noteq> group_size grp then
              (False, grp, xml1,
               logger1 @ [QString_arg ''Strings in group %1 are not ordered properly''
                            (QString_number gid)])
            else
              let (text, xml2) = readElementText xml1;
                  (closed, xml3, logger3) = readCloseTag xml2 ''string'' logger1
              in readGroup_loop gid (group_add grp text) xml3 logger3)"
  by pat_completeness auto
termination
proof (relation "measure (\<lambda>(gid, grp, xml, logger). remaining xml)", goal_cases)
  case 1
  show ?case by simp
next
  case prems: (2 gid grp xml logger p found q xml1 logger1 textIdString textId r str xml2 u closed v xml3 logger3)
  from prems have a: "readOpenTag xml ''string'' logger = (True, xml1, logger1)" by simp
  from prems have b: "readElementText xml1 = (str, xml2)" by simp
  from prems have c: "readCloseTag xml2 ''string'' logger1 = (closed, xml3, logger3)" by simp
  from readOpenTag_found [OF a] have "isStartElement xml1" by simp
  from readElementText_remaining [OF b this] readCloseTag_remaining [OF c]
    readOpenTag_remaining [OF a]
  show ?case by simp
qed

declare readGroup_loop.simps [simp del]

definition readGroup ::
  "TextFile \<Rightarrow> reader \<Rightarrow> logger \<Rightarrow> bool \<times> TextFile \<times> reader \<times> logger" where
  "readGroup file xml logger =
     (if \<not> hasAttribute (attributes xml) ''id''
      then (False, file, xml, logger @ [''Group does not have an ID attribute''])
      else
        let idString = attrValue (attributes xml) ''id'' in
        case toInt idString of
          None \<Rightarrow>
            (False, file, xml, logger @ [QString_arg ''Group ID is not an integer: %1'' idString])
        | Some gid \<Rightarrow>
            let (ok, grp, xml', logger') = readGroup_loop gid (TextGroup_new gid) xml logger
            in if ok then (True, file\<lparr>m_groups := m_groups file @ [grp]\<rparr>, xml', logger')
               else (False, file, xml', logger'))"

lemma readGroup_loop_done:
  "readOpenTag xml ''string'' logger = (False, xml1, logger1) \<Longrightarrow>
     readGroup_loop gid grp xml logger = (True, grp, xml1, logger1)"
  by (simp add: readGroup_loop.simps [of gid grp xml])

lemma readGroup_loop_badId:
  "readOpenTag xml ''string'' logger = (True, xml1, logger1) \<Longrightarrow>
   toInt (attrValue (attributes xml1) ''id'') = None \<Longrightarrow>
     readGroup_loop gid grp xml logger =
       (False, grp, xml1,
        logger1 @ [QString_arg ''String ID is not an integer: %1'' (attrValue (attributes xml1) ''id'')])"
  by (simp add: readGroup_loop.simps [of gid grp xml])

lemma readGroup_loop_misordered:
  "readOpenTag xml ''string'' logger = (True, xml1, logger1) \<Longrightarrow>
   toInt (attrValue (attributes xml1) ''id'') = Some textId \<Longrightarrow>
   textId \<noteq> group_size grp \<Longrightarrow>
     readGroup_loop gid grp xml logger =
       (False, grp, xml1,
        logger1 @ [QString_arg ''Strings in group %1 are not ordered properly'' (QString_number gid)])"
  by (simp add: readGroup_loop.simps [of gid grp xml])

lemma readGroup_loop_next:
  "readOpenTag xml ''string'' logger = (True, xml1, logger1) \<Longrightarrow>
   toInt (attrValue (attributes xml1) ''id'') = Some (group_size grp) \<Longrightarrow>
   readElementText xml1 = (str, xml2) \<Longrightarrow>
   readCloseTag xml2 ''string'' logger1 = (closed, xml3, logger3) \<Longrightarrow>
     readGroup_loop gid grp xml logger = readGroup_loop gid (group_add grp str) xml3 logger3"
  by (simp add: readGroup_loop.simps [of gid grp xml])

lemma readGroup_loop_remaining:
  "readGroup_loop gid grp xml logger = (ok, grp', xml', logger') \<Longrightarrow>
     remaining xml' \<le> remaining xml \<and>
     (\<not> atEnd xml \<and> \<not> (isStartElement xml \<and> xmlName xml = ''string'')
        \<longrightarrow> remaining xml' < remaining xml)"
proof (induction "remaining xml" arbitrary: xml grp logger rule: less_induct)
  case less
  obtain found xml1 logger1 where a: "readOpenTag xml ''string'' logger = (found, xml1, logger1)"
    by (cases "readOpenTag xml ''string'' logger") auto
  note le1 = readOpenTag_remaining [OF a]
  note lt1 = readOpenTag_progress [OF a]
  show ?case
  proof (cases found)
    case False
    with a have "readOpenTag xml ''string'' logger = (False, xml1, logger1)" by simp
    from readGroup_loop_done [OF this] less.prems le1 lt1 show ?thesis by auto
  next
    case True
    with a have a': "readOpenTag xml ''string'' logger = (True, xml1, logger1)" by simp
    show ?thesis
    proof (cases "toInt (attrValue (attributes xml1) ''id'')")
      case None
      from readGroup_loop_badId [OF a' None] less.prems le1 lt1 show ?thesis by auto
    next
      case (Some textId)
      show ?thesis
      proof (cases "textId = group_size grp")
        case False
        from readGroup_loop_misordered [OF a' Some False] less.prems le1 lt1
        show ?thesis by auto
      next
        case eq: True
        obtain str xml2 where b: "readElementText xml1 = (str, xml2)"
          by (cases "readElementText xml1") auto
        obtain closed xml3 logger3
          where c: "readCloseTag xml2 ''string'' logger1 = (closed, xml3, logger3)"
          by (cases "readCloseTag xml2 ''string'' logger1") auto
        from readOpenTag_found [OF a'] have "isStartElement xml1" by simp
        from readElementText_remaining [OF b this] readCloseTag_remaining [OF c] le1
        have lt: "remaining xml3 < remaining xml" by simp
        from less.prems readGroup_loop_next [OF a' Some [unfolded eq] b c]
        have "readGroup_loop gid (group_add grp str) xml3 logger3 = (ok, grp', xml', logger')"
          by simp
        from less.hyps [OF lt this] lt show ?thesis by simp
      qed
    qed
  qed
qed

lemma readGroup_remaining:
  "readGroup file xml logger = (ok, file', xml', logger') \<Longrightarrow>
     remaining xml' \<le> remaining xml \<and>
     (ok \<and> isStartElement xml \<and> xmlName xml = ''group'' \<longrightarrow> remaining xml' < remaining xml)"
proof -
  assume r: "readGroup file xml logger = (ok, file', xml', logger')"
  have ne: "isStartElement xml \<Longrightarrow> \<not> atEnd xml"
    by (cases "current xml") (auto simp: isStartElement_def atEnd_def)
  show ?thesis
    using r ne
    by (auto simp: readGroup_def Let_def split: if_splits option.splits prod.splits
             dest!: readGroup_loop_remaining)
qed

section \<open>The document reader\<close>

text \<open>
  The loop of \<open>readFile\<close> over the \<open>group\<close> elements, together with the closing
  \<open>readCloseTag\<close> for the root that follows it.
\<close>

function readFile_loop ::
  "TextFile \<Rightarrow> reader \<Rightarrow> logger \<Rightarrow> bool \<times> TextFile \<times> reader \<times> logger" where
  "readFile_loop file xml logger =
     (let (found, xml1, logger1) = readOpenTag xml ''group'' logger in
      if found then
        let (ok, file2, xml2, logger2) = readGroup file xml1 logger1 in
        if \<not> ok then (False, file2, xml2, logger2)
        else
          let (closed, xml3, logger3) = readCloseTag xml2 ''group'' logger2 in
          if \<not> closed then (False, file2, xml3, logger3)
          else readFile_loop file2 xml3 logger3
      else
        let (closed, xml4, logger4) = readCloseTag xml1 ''strings'' logger1
        in (closed, file, xml4, logger4))"
  by pat_completeness auto
termination
proof (relation "measure (\<lambda>(file, xml, logger). remaining xml)", goal_cases)
  case 1
  show ?case by simp
next
  case prems: (2 f xml logger p found q xml1 logger1 r ok u file2 v xml2 logger2 w closed z xml3 logger3)
  from prems have a: "readOpenTag xml ''group'' logger = (True, xml1, logger1)" by simp
  from prems have b: "readGroup f xml1 logger1 = (True, file2, xml2, logger2)" by simp
  from prems have c: "readCloseTag xml2 ''group'' logger2 = (closed, xml3, logger3)" by simp
  from readGroup_remaining [OF b] readOpenTag_found [OF a]
  have "remaining xml2 < remaining xml1" by simp
  with readCloseTag_remaining [OF c] readOpenTag_remaining [OF a]
  show ?case by simp
qed

declare readFile_loop.simps [simp del]

definition readFile ::
  "TextFile \<Rightarrow> reader \<Rightarrow> logger \<Rightarrow> bool \<times> TextFile \<times> reader \<times> logger" where
  "readFile file xml logger =
     (let (found, xml1, logger1) = readOpenTag xml ''strings'' logger in
      if \<not> found then (False, file, xml1, logger1 @ [''Unable to find root <strings> element''])
      else
        let file1 = (if hasAttribute (attributes xml1) ''name''
                     then file\<lparr>m_name := attrValue (attributes xml1) ''name''\<rparr> else file);
            file2 = (if hasAttribute (attributes xml1) ''indexWithCounts''
                     then file1\<lparr>m_indexWithCounts :=
                                  (attrValue (attributes xml1) ''indexWithCounts'' \<noteq> ''false'')\<rparr>
                     else file1)
        in readFile_loop file2 xml1 logger1)"

text \<open>
  A device opened for reading either fails to open, with its error string, or delivers
  the tokens that the XML reader will find in it. A fresh \<open>QXmlStreamReader\<close> has read
  no token yet.
\<close>

datatype device = Unopenable string | Readable "token list"

definition read :: "TextFile \<Rightarrow> device \<Rightarrow> logger \<Rightarrow> bool \<times> TextFile \<times> logger" where
  "read file dev logger =
     (case dev of
        Unopenable e \<Rightarrow>
          (False, file, logger @ [QString_arg ''Unable to open XML file for reading: %1'' e])
      | Readable ts \<Rightarrow>
          let (result, file', xml', logger') =
                readFile file \<lparr>current = NoToken, pending = ts\<rparr> logger
          in (result, file', logger'))"

section \<open>The document writer\<close>

text \<open>
  \<open>QXmlStreamWriter\<close> with auto-formatting switched on, seen through the tokens that a
  \<open>QXmlStreamReader\<close> finds in what was written. A start element stays open for
  attributes (\<open>startTag\<close>) until the next write closes it. Auto-formatting puts a line
  break and four spaces per nesting level before a start element, and before an end
  element that follows another element; the reader meets this white space as character
  data. Empty text leaves no token, and an element closed right after its start tag is
  written as an empty element, which reads as a start element followed by its end.
\<close>

record writer =
  written :: "token list"
  tagStack :: "string list"
  startTag :: "(string \<times> (string \<times> string) list) option"
  lastWasStartElement :: bool
  wroteSomething :: bool

definition newWriter :: writer where
  "newWriter = \<lparr>written = [], tagStack = [], startTag = None,
                 lastWasStartElement = False, wroteSomething = False\<rparr>"

definition finishStartElement :: "writer \<Rightarrow> bool \<Rightarrow> bool \<times> writer" where
  "finishStartElement w contents =
     (let hadSomethingWritten = wroteSomething w;
          w1 = w\<lparr>wroteSomething := contents\<rparr>
      in case startTag w1 of
           None \<Rightarrow> (hadSomethingWritten, w1)
         | Some (n, as) \<Rightarrow>
             (hadSomethingWritten, w1\<lparr>written := written w1 @ [StartElement n as], startTag := None\<rparr>))"

definition indentation :: "nat \<Rightarrow> token" where
  "indentation level = Characters (char_of (10 :: nat) # concat (replicate level ''    ''))"

definition indent :: "writer \<Rightarrow> nat \<Rightarrow> writer" where
  "indent w level = w\<lparr>written := written w @ [indentation level]\<rparr>"

definition writeStartDocument :: "writer \<Rightarrow> writer" where
  "writeStartDocument w =
     (let (had, w1) = finishStartElement w False in w1\<lparr>written := written w1 @ [StartDocument]\<rparr>)"

definition writeStartElement :: "writer \<Rightarrow> string \<Rightarrow> writer" where
  "writeStartElement w name =
     (let (had, w1) = finishStartElement w False;
          w2 = (if \<not> had then indent w1 (length (tagStack w1)) else w1)
      in w2\<lparr>tagStack := name # tagStack w2, startTag := Some (name, []),
             lastWasStartElement := True\<rparr>)"

definition writeAttribute :: "writer \<Rightarrow> string \<Rightarrow> string \<Rightarrow> writer" where
  "writeAttribute w k v =
     (case startTag w of
        None \<Rightarrow> w
      | Some (n, as) \<Rightarrow> w\<lparr>startTag := Some (n, as @ [(k, v)])\<rparr>)"

definition writeCharacters :: "writer \<Rightarrow> string \<Rightarrow> writer" where
  "writeCharacters w s =
     (let (had, w1) = finishStartElement w True
      in if s = [] then w1 else w1\<lparr>written := written w1 @ [Characters s]\<rparr>)"

definition writeEndElement :: "writer \<Rightarrow> writer" where
  "writeEndElement w =
     (case tagStack w of
        [] \<Rightarrow> w
      | name # names \<Rightarrow>
          (case startTag w of
             Some (n, as) \<Rightarrow>
               w\<lparr>written := written w @ [StartElement n as, EndElement name], startTag := None,
                  lastWasStartElement := False, tagStack := names\<rparr>
           | None \<Rightarrow>
               let (had, w1) = finishStartElement w False;
                   w2 = (if \<not> had \<and> \<not> lastWasStartElement w1 then indent w1 (length names)
                         else w1)
               in w2\<lparr>written := written w2 @ [EndElement name], tagStack := names,
                      lastWasStartElement := False\<rparr>))"

function writeEndDocument :: "writer \<Rightarrow> writer" where
  "writeEndDocument w =
     (if tagStack w \<noteq> [] then writeEndDocument (writeEndElement w)
      else w\<lparr>written := written w @ [EndDocument]\<rparr>)"
  by pat_completeness auto
termination
  by (relation "measure (\<lambda>w. length (tagStack w))")
     (auto simp: writeEndElement_def finishStartElement_def indent_def Let_def
           split: list.splits option.splits)

declare writeEndDocument.simps [simp del]

text \<open>The loop of \<open>writeGroup\<close> over the strings of a group, with its counter \<open>index\<close>.\<close>

fun writeGroup_loop :: "string list \<Rightarrow> int \<Rightarrow> writer \<Rightarrow> writer" where
  "writeGroup_loop [] index xml = xml"
| "writeGroup_loop (s # strings) index xml =
     (let xml1 = writeStartElement xml ''string'';
          xml2 = writeAttribute xml1 ''id'' (QString_number index);
          xml3 = writeCharacters xml2 s;
          xml4 = writeEndElement xml3
      in writeGroup_loop strings (index + 1) xml4)"

definition writeGroup :: "TextGroup \<Rightarrow> writer \<Rightarrow> writer" where
  "writeGroup grp xml =
     (let xml1 = writeStartElement xml ''group'';
          xml2 = writeAttribute xml1 ''id'' (QString_number (m_id grp));
          xml3 = writeGroup_loop (m_strings grp) 0 xml2
      in writeEndElement xml3)"

fun write_loop :: "TextGroup list \<Rightarrow> writer \<Rightarrow> writer" where
  "write_loop [] xml = xml"
| "write_loop (g # gs) xml = write_loop gs (writeGroup g xml)"

text \<open>
  \<open>TextFileXmlStream::write\<close>, named \<open>write_TextFile\<close> here. Writing replaces what
  the device held by the tokens of the written document; a device that cannot be
  opened is left alone.
\<close>

definition write_TextFile :: "TextFile \<Rightarrow> device \<Rightarrow> logger \<Rightarrow> bool \<times> device \<times> logger" where
  "write_TextFile file dev logger =
     (case dev of
        Unopenable e \<Rightarrow>
          (False, dev, logger @ [QString_arg ''Unable to open XML file for writing: %1'' e])
      | Readable old \<Rightarrow>
          let xml = newWriter;
              xml1 = writeStartDocument xml;
              xml2 = writeStartElement xml1 ''strings'';
              xml3 = writeAttribute xml2 ''name'' (m_name file);
              xml4 = writeAttribute xml3 ''indexWithCounts''
                       (if m_indexWithCounts file then ''true'' else ''false'');
              xml5 = write_loop (m_groups file) xml4;
              xml6 = writeEndElement xml5;
              xml7 = writeEndDocument xml6
          in (True, Readable (written xml7), logger))"

section \<open>Token streams of documents\<close>

text \<open>
  The tokens of a \<open>string\<close> element with a given \<open>id\<close> value and text, of a run of such
  elements each led in by the tokens \<open>sep\<close>, and of the document that \<open>write_TextFile\<close>
  writes. \<open>sequentialFrom i ids\<close> says that the id values parse to \<open>i\<close>, \<open>i + 1\<close>, ...
  in this order. \<open>flushed\<close> is what a writer has written once its open start tag is
  closed. A document is well formed when its group ids are 32-bit \<open>int\<close>s and the number
  of strings of each group stays within the range of the \<open>int\<close> counter \<open>index\<close>, as the
  C++ types have it.
\<close>

definition textTokens :: "string \<Rightarrow> token list" where
  "textTokens s = (if s = [] then [] else [Characters s])"

definition stringElement :: "string \<Rightarrow> string \<Rightarrow> token list" where
  "stringElement idv s =
     StartElement ''string'' [(''id'', idv)] # textTokens s @ [EndElement ''string'']"

fun stringElements :: "token list \<Rightarrow> (string \<times> string) list \<Rightarrow> token list" where
  "stringElements sep [] = []"
| "stringElements sep ((idv, s) # items) = sep @ stringElement idv s @ stringElements sep items"

fun sequentialFrom :: "int \<Rightarrow> string list \<Rightarrow> bool" where
  "sequentialFrom i [] = True"
| "sequentialFrom i (idv # ids) = (toInt idv = Some i \<and> sequentialFrom (i + 1) ids)"

fun numbered :: "int \<Rightarrow> string list \<Rightarrow> (string \<times> string) list" where
  "numbered i [] = []"
| "numbered i (s # ss) = (QString_number i, s) # numbered (i + 1) ss"

definition groupTokens :: "nat \<Rightarrow> TextGroup \<Rightarrow> token list" where
  "groupTokens level g =
     [indentation level, StartElement ''group'' [(''id'', QString_number (m_id g))]] @
     stringElements [indentation (Suc level)] (numbered 0 (m_strings g)) @
     (if m_strings g = [] then [] else [indentation level]) @
     [EndElement ''group'']"

definition documentTokens :: "TextFile \<Rightarrow> token list" where
  "documentTokens f =
     [StartDocument, indentation 0,
      StartElement ''strings''
        [(''name'', m_name f),
         (''indexWithCounts'', if m_indexWithCounts f then ''true'' else ''false'')]] @
     concat (map (groupTokens 1) (m_groups f)) @
     (if m_groups f = [] then [] else [indentation 0]) @
     [EndElement ''strings'', EndDocument]"

definition flushed :: "writer \<Rightarrow> token list" where
  "flushed w = written w @ (case startTag w of None \<Rightarrow> [] | Some (n, as) \<Rightarrow> [StartElement n as])"

definition wellFormed :: "TextFile \<Rightarrow> bool" where
  "wellFormed f =
     list_all (\<lambda>g. - 2147483648 \<le> m_id g \<and> m_id g \<le> 2147483647 \<and>
                    int (length (m_strings g)) \<le> 2147483648) (m_groups f)"

section \<open>Log messages\<close>

lemma arg_invalid_xml [simp]: "QString_arg ''Invalid XML: %s'' e = ''Invalid XML: %s''"
  by (simp add: QString_arg_def multiArg_def digitValue_def)

lemma arg_expected_tag [simp]:
  "QString_arg2 ''Invalid XML: expected tag <%1>, got <%2>'' tag n =
     ''Invalid XML: expected tag <'' @ tag @ ''>, got <'' @ n @ ''>''"
  by (simp add: QString_arg2_def multiArg_def digitValue_def)

lemma arg_end_element [simp]:
  "QString_arg ''Invalid XML: end element </%1> not found'' tag =
     ''Invalid XML: end element </'' @ tag @ ''> not found''"
  by (simp add: QString_arg_def multiArg_def digitValue_def)

lemma arg_group_id [simp]:
  "QString_arg ''Group ID is not an integer: %1'' v = ''Group ID is not an integer: '' @ v"
  by (simp add: QString_arg_def multiArg_def digitValue_def)

lemma arg_string_id [simp]:
  "QString_arg ''String ID is not an integer: %1'' v = ''String ID is not an integer: '' @ v"
  by (simp add: QString_arg_def multiArg_def digitValue_def)

lemma arg_not_ordered [simp]:
  "QString_arg ''Strings in group %1 are not ordered properly'' v =
     ''Strings in group '' @ v @ '' are not ordered properly''"
  by (simp add: QString_arg_def multiArg_def digitValue_def)

lemma arg_open_reading [simp]:
  "QString_arg ''Unable to open XML file for reading: %1'' e =
     ''Unable to open XML file for reading: '' @ e"
  by (simp add: QString_arg_def multiArg_def digitValue_def)

lemma arg_open_writing [simp]:
  "QString_arg ''Unable to open XML file for writing: %1'' e =
     ''Unable to open XML file for writing: '' @ e"
  by (simp add: QString_arg_def multiArg_def digitValue_def)

section \<open>The tag matcher on token streams\<close>

lemma atEndToken_isInvalid: "\<not> atEndToken c \<Longrightarrow> \<not> isInvalid c"
  by (cases c) simp_all

lemma skippable_not_atEnd: "skippable s \<Longrightarrow> \<not> atEndToken s"
  by (cases s) simp_all

lemma readNext_Cons:
  "\<not> atEndToken c \<Longrightarrow> readNext \<lparr>current = c, pending = t # ts\<rparr> = \<lparr>current = t, pending = ts\<rparr>"
  by (simp add: readNext_def atEndToken_isInvalid)

lemma readNext_Nil:
  "\<not> atEndToken c \<Longrightarrow>
     readNext \<lparr>current = c, pending = []\<rparr> =
       \<lparr>current = Invalid ''Premature end of document.'', pending = []\<rparr>"
  by (simp add: readNext_def atEndToken_isInvalid)

lemma readOpenTag_loop_skips:
  "\<not> atEndToken c \<Longrightarrow> \<forall>s\<in>set skipped. skippable s \<Longrightarrow> \<not> skippable t \<Longrightarrow>
     readOpenTag_loop \<lparr>current = c, pending = skipped @ t # ts\<rparr> tag logger =
       (case t of
          Invalid e \<Rightarrow> (False, \<lparr>current = t, pending = ts\<rparr>, logger @ [''Invalid XML: %s''])
        | StartElement n as \<Rightarrow>
            if n = tag then (True, \<lparr>current = t, pending = ts\<rparr>, logger)
            else (False, \<lparr>current = t, pending = ts\<rparr>,
                  logger @ [''Invalid XML: expected tag <'' @ tag @ ''>, got <'' @ n @ ''>''])
        | _ \<Rightarrow> (False, \<lparr>current = t, pending = ts\<rparr>, logger))"
proof (induction skipped arbitrary: c)
  case Nil
  then show ?case
    by (cases t) (simp_all add: readOpenTag_loop_stop atEnd_def readNext_Cons)
next
  case (Cons s skipped)
  from Cons.prems have s: "skippable s" by simp
  then have "\<not> atEndToken s" by (rule skippable_not_atEnd)
  from Cons.IH [OF this] Cons.prems
  have "readOpenTag_loop \<lparr>current = s, pending = skipped @ t # ts\<rparr> tag logger =
       (case t of
          Invalid e \<Rightarrow> (False, \<lparr>current = t, pending = ts\<rparr>, logger @ [''Invalid XML: %s''])
        | StartElement n as \<Rightarrow>
            if n = tag then (True, \<lparr>current = t, pending = ts\<rparr>, logger)
            else (False, \<lparr>current = t, pending = ts\<rparr>,
                  logger @ [''Invalid XML: expected tag <'' @ tag @ ''>, got <'' @ n @ ''>''])
        | _ \<Rightarrow> (False, \<lparr>current = t, pending = ts\<rparr>, logger))"
    by simp
  moreover have "readOpenTag_loop \<lparr>current = c, pending = (s # skipped) @ t # ts\<rparr> tag logger =
      readOpenTag_loop \<lparr>current = s, pending = skipped @ t # ts\<rparr> tag logger"
    using Cons.prems(1) s by (simp add: readOpenTag_loop_skip atEnd_def readNext_Cons)
  ultimately show ?case by simp
qed

lemma readOpenTag_loop_exhausted:
  "\<not> atEndToken c \<Longrightarrow> \<forall>s\<in>set skipped. skippable s \<Longrightarrow>
     readOpenTag_loop \<lparr>current = c, pending = skipped\<rparr> tag logger =
       (False, \<lparr>current = Invalid ''Premature end of document.'', pending = []\<rparr>,
        logger @ [''Invalid XML: %s''])"
proof (induction skipped arbitrary: c)
  case Nil
  then show ?case
    by (simp add: readOpenTag_loop_stop atEnd_def readNext_Nil)
next
  case (Cons s skipped)
  from Cons.prems have s: "skippable s" by simp
  then have "\<not> atEndToken s" by (rule skippable_not_atEnd)
  from Cons.IH [OF this] Cons.prems
  have "readOpenTag_loop \<lparr>current = s, pending = skipped\<rparr> tag logger =
       (False, \<lparr>current = Invalid ''Premature end of document.'', pending = []\<rparr>,
        logger @ [''Invalid XML: %s''])"
    by simp
  moreover have "readOpenTag_loop \<lparr>current = c, pending = s # skipped\<rparr> tag logger =
      readOpenTag_loop \<lparr>current = s, pending = skipped\<rparr> tag logger"
    using Cons.prems(1) s by (simp add: readOpenTag_loop_skip atEnd_def readNext_Cons)
  ultimately show ?case by simp
qed

lemma readCloseTag_loop_scans:
  "\<not> atEndToken c \<Longrightarrow> \<forall>s\<in>set skipped. s \<noteq> EndElement tag \<and> \<not> atEndToken s \<Longrightarrow>
     readCloseTag_loop \<lparr>current = c, pending = skipped @ EndElement tag # ts\<rparr> tag logger =
       (True, \<lparr>current = EndElement tag, pending = ts\<rparr>, logger)"
proof (induction skipped arbitrary: c)
  case Nil
  then show ?case by (simp add: readCloseTag_loop_hit atEnd_def readNext_Cons)
next
  case (Cons s skipped)
  from Cons.prems have s: "s \<noteq> EndElement tag" "\<not> atEndToken s" by simp_all
  have "readCloseTag_loop \<lparr>current = c, pending = (s # skipped) @ EndElement tag # ts\<rparr> tag logger =
      readCloseTag_loop \<lparr>current = s, pending = skipped @ EndElement tag # ts\<rparr> tag logger"
    using Cons.prems(1) s by (simp add: readCloseTag_loop_miss atEnd_def readNext_Cons)
  with Cons.IH [OF s(2)] Cons.prems show ?case by simp
qed

lemma readCloseTag_loop_stream_end:
  "\<not> atEndToken c \<Longrightarrow> \<forall>s\<in>set skipped. s \<noteq> EndElement tag \<and> \<not> atEndToken s \<Longrightarrow>
   atEndToken e \<Longrightarrow>
     readCloseTag_loop \<lparr>current = c, pending = skipped @ e # ts\<rparr> tag logger =
       (False, \<lparr>current = e, pending = ts\<rparr>,
        logger @ [''Invalid XML: end element </'' @ tag @ ''> not found''])"
proof (induction skipped arbitrary: c)
  case Nil
  then have ne: "e \<noteq> EndElement tag" by auto
  have "readCloseTag_loop \<lparr>current = c, pending = e # ts\<rparr> tag logger =
      readCloseTag_loop \<lparr>current = e, pending = ts\<rparr> tag logger"
    using Nil.prems(1) ne by (simp add: readCloseTag_loop_miss atEnd_def readNext_Cons)
  with Nil.prems show ?case by (simp add: readCloseTag_loop_atEnd atEnd_def)
next
  case (Cons s skipped)
  from Cons.prems have s: "s \<noteq> EndElement tag" "\<not> atEndToken s" by simp_all
  have "readCloseTag_loop \<lparr>current = c, pending = (s # skipped) @ e # ts\<rparr> tag logger =
      readCloseTag_loop \<lparr>current = s, pending = skipped @ e # ts\<rparr> tag logger"
    using Cons.prems(1) s by (simp add: readCloseTag_loop_miss atEnd_def readNext_Cons)
  with Cons.IH [OF s(2)] Cons.prems show ?case by simp
qed

lemma readCloseTag_loop_exhausted:
  "\<not> atEndToken c \<Longrightarrow> \<forall>s\<in>set skipped. s \<noteq> EndElement tag \<and> \<not> atEndToken s \<Longrightarrow>
     readCloseTag_loop \<lparr>current = c, pending = skipped\<rparr> tag logger =
       (False, \<lparr>current = Invalid ''Premature end of document.'', pending = []\<rparr>,
        logger @ [''Invalid XML: end element </'' @ tag @ ''> not found''])"
proof (induction skipped arbitrary: c)
  case Nil
  have "readCloseTag_loop \<lparr>current = c, pending = []\<rparr> tag logger =
      readCloseTag_loop \<lparr>current = Invalid ''Premature end of document.'', pending = []\<rparr> tag logger"
    using Nil.prems(1) by (simp add: readCloseTag_loop_miss atEnd_def readNext_Nil)
  then show ?case by (simp add: readCloseTag_loop_atEnd atEnd_def)
next
  case (Cons s skipped)
  from Cons.prems have s: "s \<noteq> EndElement tag" "\<not> atEndToken s" by simp_all
  have "readCloseTag_loop \<lparr>current = c, pending = s # skipped\<rparr> tag logger =
      readCloseTag_loop \<lparr>current = s, pending = skipped\<rparr> tag logger"
    using Cons.prems(1) s by (simp add: readCloseTag_loop_miss atEnd_def readNext_Cons)
  with Cons.IH [OF s(2)] Cons.prems show ?case by simp
qed

lemma readOpenTag_loop_cases:
  "readOpenTag_loop xml tag logger = (ok, xml', logger') \<Longrightarrow>
     (atEnd xml \<and> \<not> ok \<and> xml' = xml \<and> logger' = logger @ [''Invalid XML: unexpected end of file'']) \<or>
     (\<not> atEnd xml \<and> ok \<and> isStartElement xml' \<and> xmlName xml' = tag \<and> logger' = logger) \<or>
     (\<not> atEnd xml \<and> \<not> ok \<and> isStartElement xml' \<and> xmlName xml' \<noteq> tag \<and>
        logger' = logger @ [''Invalid XML: expected tag <'' @ tag @ ''>, got <'' @ xmlName xml' @ ''>'']) \<or>
     (\<not> atEnd xml \<and> \<not> ok \<and> isInvalid (current xml') \<and> logger' = logger @ [''Invalid XML: %s'']) \<or>
     (\<not> atEnd xml \<and> \<not> ok \<and> (isEndElement xml' \<or> current xml' = EndDocument) \<and> logger' = logger)"
proof (induction "remaining xml" arbitrary: xml rule: less_induct)
  case less
  show ?case
  proof (cases "atEnd xml")
    case True
    with less.prems show ?thesis by (simp add: readOpenTag_loop_atEnd)
  next
    case False
    have lt: "remaining (readNext xml) < remaining xml"
      using False by (rule remaining_readNext_less)
    show ?thesis
    proof (cases "skippable (current (readNext xml))")
      case True
      then have ne: "\<not> atEnd (readNext xml)"
        by (simp add: atEnd_def skippable_not_atEnd)
      from True False less.prems
      have "readOpenTag_loop (readNext xml) tag logger = (ok, xml', logger')"
        by (simp add: readOpenTag_loop_skip)
      from less.hyps [OF lt this] ne False show ?thesis by simp
    next
      case stop: False
      with False less.prems show ?thesis
        by (cases "current (readNext xml)")
           (auto simp: readOpenTag_loop_stop isStartElement_def isEndElement_def xmlName_def
                 split: if_splits)
    qed
  qed
qed

section \<open>Numbers and their decimal form\<close>

lemma toInt_empty: "toInt [] = None"
  by (simp add: toInt_def trimmed_def)

lemma toInt_range: "toInt s = Some i \<Longrightarrow> - 2147483648 \<le> i \<and> i \<le> 2147483647"
  by (auto simp: toInt_def Let_def split: if_splits option.splits)

lemma of_char_digitChar: "d < 10 \<Longrightarrow> (of_char (digitChar d) :: nat) = 48 + d"
  by (simp add: digitChar_def)

lemma digitValue_digitChar: "d < 10 \<Longrightarrow> digitValue (digitChar d) = Some d"
  by (simp add: digitValue_def of_char_digitChar)

lemma isSpace_digitChar: "d < 10 \<Longrightarrow> \<not> isSpace (digitChar d)"
  by (simp add: isSpace_def of_char_digitChar)

lemma digitChar_not_sign: "d < 10 \<Longrightarrow> digitChar d \<noteq> CHR ''-'' \<and> digitChar d \<noteq> CHR ''+''"
proof -
  assume d: "d < 10"
  have "digitChar d \<noteq> CHR ''-''"
  proof
    assume "digitChar d = CHR ''-''"
    then have "(of_char (digitChar d) :: nat) = of_char (CHR ''-'')" by simp
    with d show False by (simp add: of_char_digitChar)
  qed
  moreover have "digitChar d \<noteq> CHR ''+''"
  proof
    assume "digitChar d = CHR ''+''"
    then have "(of_char (digitChar d) :: nat) = of_char (CHR ''+'')" by simp
    with d show False by (simp add: of_char_digitChar)
  qed
  ultimately show ?thesis by simp
qed

lemma natDigits_nonempty: "natDigits n \<noteq> []"
  by (subst natDigits.simps) simp

lemma natDigits_last: "last (natDigits n) = digitChar (n mod 10)"
  by (subst natDigits.simps) simp

lemma natDigits_hd: "\<exists>d<10. hd (natDigits n) = digitChar d"
proof (induction n rule: natDigits.induct)
  case (1 n)
  show ?case
  proof (cases "n < 10")
    case True
    then show ?thesis by (subst natDigits.simps) auto
  next
    case False
    with 1 obtain d where "d < 10" "hd (natDigits (n div 10)) = digitChar d" by auto
    with False show ?thesis
      by (subst natDigits.simps) (auto simp: natDigits_nonempty)
  qed
qed

lemma digitsValue_append:
  "digitsValue acc (xs @ ys) =
     (case digitsValue acc xs of None \<Rightarrow> None | Some v \<Rightarrow> digitsValue v ys)"
  by (induction xs arbitrary: acc) (auto split: option.splits)

lemma digitsValue_natDigits: "digitsValue 0 (natDigits n) = Some n"
proof (induction n rule: natDigits.induct)
  case (1 n)
  show ?case
  proof (cases "n < 10")
    case True
    then show ?thesis by (subst natDigits.simps) (simp add: digitValue_digitChar)
  next
    case False
    with 1 have "digitsValue 0 (natDigits (n div 10)) = Some (n div 10)" by simp
    with False show ?thesis
      by (subst natDigits.simps) (simp add: digitsValue_append digitValue_digitChar)
  qed
qed

lemma dropWhile_hd_keep: "xs \<noteq> [] \<Longrightarrow> \<not> P (hd xs) \<Longrightarrow> dropWhile P xs = xs"
  by (cases xs) simp_all

lemma trimmed_id: "s \<noteq> [] \<Longrightarrow> \<not> isSpace (hd s) \<Longrightarrow> \<not> isSpace (last s) \<Longrightarrow> trimmed s = s"
  by (simp add: trimmed_def dropWhile_hd_keep hd_rev)

lemma trimmed_natDigits: "trimmed (natDigits n) = natDigits n"
proof (rule trimmed_id)
  show "natDigits n \<noteq> []" by (rule natDigits_nonempty)
  from natDigits_hd [of n] show "\<not> isSpace (hd (natDigits n))"
    by (auto simp: isSpace_digitChar)
  show "\<not> isSpace (last (natDigits n))"
    by (simp add: natDigits_last isSpace_digitChar)
qed

lemma trimmed_minus_natDigits: "trimmed (CHR ''-'' # natDigits n) = CHR ''-'' # natDigits n"
proof (rule trimmed_id)
  show "CHR ''-'' # natDigits n \<noteq> []" by simp
  show "\<not> isSpace (hd (CHR ''-'' # natDigits n))" by (simp add: isSpace_def)
  show "\<not> isSpace (last (CHR ''-'' # natDigits n))"
    by (simp add: natDigits_nonempty natDigits_last isSpace_digitChar)
qed

lemma toInt_number:
  "- 2147483648 \<le> i \<Longrightarrow> i \<le> 2147483647 \<Longrightarrow> toInt (QString_number i) = Some i"
proof (cases "i < 0")
  case True
  assume "- 2147483648 \<le> i" "i \<le> 2147483647"
  with True show ?thesis
    by (simp add: toInt_def QString_number_def trimmed_minus_natDigits natDigits_nonempty
                  digitsValue_natDigits)
next
  case False
  assume r: "- 2147483648 \<le> i" "i \<le> 2147483647"
  from natDigits_hd [of "nat i"] obtain d where d: "d < 10" "hd (natDigits (nat i)) = digitChar d"
    by auto
  with digitChar_not_sign [of d]
  have "hd (natDigits (nat i)) \<noteq> CHR ''-''" "hd (natDigits (nat i)) \<noteq> CHR ''+''" by simp_all
  with False r show ?thesis
    by (simp add: toInt_def QString_number_def trimmed_natDigits natDigits_nonempty
                  digitsValue_natDigits)
qed

section \<open>The group decoder on element streams\<close>

lemma readElementText_textTokens:
  "readElementText \<lparr>current = StartElement n as, pending = textTokens s @ EndElement m # rest\<rparr> =
     (s, \<lparr>current = EndElement m, pending = rest\<rparr>)"
proof (cases "s = []")
  case True
  then show ?thesis
    by (simp add: readElementText_def isStartElement_def textTokens_def
                  readElementText_loop_stop readNext_Cons isEndElement_def)
next
  case False
  have "readElementText_loop \<lparr>current = StartElement n as, pending = Characters s # EndElement m # rest\<rparr> [] =
      readElementText_loop \<lparr>current = Characters s, pending = EndElement m # rest\<rparr> ([] @ s)"
    using readElementText_loop_text
            [of "\<lparr>current = StartElement n as, pending = Characters s # EndElement m # rest\<rparr>" s "[]"]
    by (simp add: readNext_Cons)
  also have "\<dots> = (s, \<lparr>current = EndElement m, pending = rest\<rparr>)"
    by (simp add: readElementText_loop_stop readNext_Cons isEndElement_def)
  finally show ?thesis
    using False by (simp add: readElementText_def isStartElement_def textTokens_def)
qed

lemma readOpenTag_finds:
  "\<not> atEndToken c \<Longrightarrow> \<not> (isStartElementToken c \<and> tokenName c = tag) \<Longrightarrow>
   \<forall>s\<in>set sep. skippable s \<Longrightarrow>
     readOpenTag \<lparr>current = c, pending = sep @ StartElement tag as # rest\<rparr> tag logger =
       (True, \<lparr>current = StartElement tag as, pending = rest\<rparr>, logger)"
  by (simp add: readOpenTag_def isStartElement_def xmlName_def readOpenTag_loop_skips)

lemma readOpenTag_ends:
  "\<not> atEndToken c \<Longrightarrow> \<not> (isStartElementToken c \<and> tokenName c = tag) \<Longrightarrow>
   \<forall>s\<in>set sep. skippable s \<Longrightarrow>
     readOpenTag \<lparr>current = c, pending = sep @ EndElement n # rest\<rparr> tag logger =
       (False, \<lparr>current = EndElement n, pending = rest\<rparr>, logger)"
  by (simp add: readOpenTag_def isStartElement_def xmlName_def readOpenTag_loop_skips)

lemma readCloseTag_here:
  "readCloseTag \<lparr>current = EndElement tag, pending = rest\<rparr> tag logger =
     (True, \<lparr>current = EndElement tag, pending = rest\<rparr>, logger)"
  by (simp add: readCloseTag_def isEndElement_def xmlName_def)

lemma readGroup_loop_reads_string:
  assumes "\<not> atEndToken c" and "\<not> (isStartElementToken c \<and> tokenName c = ''string'')"
    and "\<forall>t\<in>set sep. skippable t" and "toInt idv = Some (group_size grp)"
  shows "readGroup_loop gid grp \<lparr>current = c, pending = sep @ stringElement idv s @ rest\<rparr> logger =
         readGroup_loop gid (group_add grp s) \<lparr>current = EndElement ''string'', pending = rest\<rparr> logger"
proof -
  let ?start = "\<lparr>current = StartElement ''string'' [(''id'', idv)],
                 pending = textTokens s @ EndElement ''string'' # rest\<rparr>"
  have a: "readOpenTag \<lparr>current = c, pending = sep @ stringElement idv s @ rest\<rparr> ''string'' logger =
      (True, ?start, logger)"
    using assms(1-3) readOpenTag_finds [of c "''string''" sep "[(''id'', idv)]"]
    by (simp add: stringElement_def)
  have b: "toInt (attrValue (attributes ?start) ''id'') = Some (group_size grp)"
    using assms(4) by (simp add: attributes_def attrValue_def)
  have c: "readElementText ?start = (s, \<lparr>current = EndElement ''string'', pending = rest\<rparr>)"
    by (rule readElementText_textTokens)
  have d: "readCloseTag \<lparr>current = EndElement ''string'', pending = rest\<rparr> ''string'' logger =
      (True, \<lparr>current = EndElement ''string'', pending = rest\<rparr>, logger)"
    by (rule readCloseTag_here)
  from readGroup_loop_next [OF a b c d] show ?thesis .
qed

lemma readGroup_loop_ends:
  assumes "\<not> atEndToken c" and "\<not> (isStartElementToken c \<and> tokenName c = ''string'')"
    and "\<forall>t\<in>set sep. skippable t"
  shows "readGroup_loop gid grp \<lparr>current = c, pending = sep @ EndElement n # rest\<rparr> logger =
         (True, grp, \<lparr>current = EndElement n, pending = rest\<rparr>, logger)"
  using assms by (simp add: readGroup_loop_done readOpenTag_ends)

lemma readGroup_loop_reads_strings:
  assumes "\<forall>t\<in>set sep. skippable t"
  shows "\<not> atEndToken c \<Longrightarrow> \<not> (isStartElementToken c \<and> tokenName c = ''string'') \<Longrightarrow>
     sequentialFrom (group_size grp) (map fst items) \<Longrightarrow>
     readGroup_loop gid grp \<lparr>current = c, pending = stringElements sep items @ rest\<rparr> logger =
       readGroup_loop gid (grp\<lparr>m_strings := m_strings grp @ map snd items\<rparr>)
         \<lparr>current = (if items = [] then c else EndElement ''string''), pending = rest\<rparr> logger"
proof (induction items arbitrary: c grp)
  case Nil
  then show ?case by simp
next
  case (Cons item items)
  obtain idv s where item: "item = (idv, s)" by (cases item)
  from Cons.prems item have id: "toInt idv = Some (group_size grp)"
    and seq: "sequentialFrom (group_size (group_add grp s)) (map fst items)"
    by (simp_all add: group_size_def group_add_def add.commute)
  have "readGroup_loop gid grp
          \<lparr>current = c, pending = stringElements sep (item # items) @ rest\<rparr> logger =
        readGroup_loop gid (group_add grp s)
          \<lparr>current = EndElement ''string'', pending = stringElements sep items @ rest\<rparr> logger"
    using readGroup_loop_reads_string [OF Cons.prems(1,2) assms id, of gid s
        "stringElements sep items @ rest" logger] item
    by simp
  also have "\<dots> = readGroup_loop gid ((group_add grp s)\<lparr>m_strings := m_strings (group_add grp s) @ map snd items\<rparr>)
         \<lparr>current = (if items = [] then EndElement ''string'' else EndElement ''string''), pending = rest\<rparr> logger"
    using Cons.IH [of "EndElement ''string''" "group_add grp s"] seq by simp
  finally show ?case using item by (simp add: group_add_def)
qed

lemma readGroup_loop_rejects_misordered:
  assumes "\<not> atEndToken c" and "\<not> (isStartElementToken c \<and> tokenName c = ''string'')"
    and "\<forall>t\<in>set sep. skippable t" and "toInt idv = Some k" and "k \<noteq> group_size grp"
  shows "readGroup_loop gid grp \<lparr>current = c, pending = sep @ stringElement idv s @ rest\<rparr> logger =
         (False, grp,
          \<lparr>current = StartElement ''string'' [(''id'', idv)],
            pending = textTokens s @ EndElement ''string'' # rest\<rparr>,
          logger @ [''Strings in group '' @ QString_number gid @ '' are not ordered properly''])"
proof -
  let ?start = "\<lparr>current = StartElement ''string'' [(''id'', idv)],
                 pending = textTokens s @ EndElement ''string'' # rest\<rparr>"
  have a: "readOpenTag \<lparr>current = c, pending = sep @ stringElement idv s @ rest\<rparr> ''string'' logger =
      (True, ?start, logger)"
    using assms(1-3) readOpenTag_finds [of c "''string''" sep "[(''id'', idv)]"]
    by (simp add: stringElement_def)
  have b: "toInt (attrValue (attributes ?start) ''id'') = Some k"
    using assms(4) by (simp add: attributes_def attrValue_def)
  from readGroup_loop_misordered [OF a b assms(5)] show ?thesis by simp
qed

section \<open>What the writer writes\<close>

lemma write_string_element:
  "\<not> wroteSomething w \<Longrightarrow>
     writeEndElement (writeCharacters (writeAttribute (writeStartElement w ''string'') ''id'' v) s) =
       \<lparr>written = flushed w @ indentation (length (tagStack w)) # stringElement v s,
        tagStack = tagStack w, startTag = None, lastWasStartElement = False,
        wroteSomething = False\<rparr>"
  by (cases "startTag w")
     (auto simp: writeEndElement_def writeCharacters_def writeAttribute_def writeStartElement_def
                 finishStartElement_def indent_def flushed_def stringElement_def textTokens_def
                 Let_def)

lemma writeGroup_loop_written:
  "\<not> wroteSomething w \<Longrightarrow> strs \<noteq> [] \<Longrightarrow>
     writeGroup_loop strs i w =
       \<lparr>written = flushed w @ stringElements [indentation (length (tagStack w))] (numbered i strs),
        tagStack = tagStack w, startTag = None, lastWasStartElement = False,
        wroteSomething = False\<rparr>"
proof (induction strs arbitrary: i w)
  case Nil
  then show ?case by simp
next
  case (Cons s strs)
  let ?w1 = "\<lparr>written = flushed w @ indentation (length (tagStack w)) # stringElement (QString_number i) s,
        tagStack = tagStack w, startTag = None, lastWasStartElement = False,
        wroteSomething = False\<rparr>"
  have step: "writeGroup_loop (s # strs) i w = writeGroup_loop strs (i + 1) ?w1"
    using Cons.prems(1) by (simp add: write_string_element Let_def)
  show ?case
  proof (cases "strs = []")
    case True
    with step show ?thesis by simp
  next
    case False
    have "\<not> wroteSomething ?w1" by simp
    from Cons.IH [OF this False, of "i + 1"] step show ?thesis
      by (simp add: flushed_def)
  qed
qed

lemma writeGroup_written:
  "\<not> wroteSomething w \<Longrightarrow>
     writeGroup g w =
       \<lparr>written = flushed w @ groupTokens (length (tagStack w)) g,
        tagStack = tagStack w, startTag = None, lastWasStartElement = False,
        wroteSomething = False\<rparr>"
proof -
  assume w: "\<not> wroteSomething w"
  let ?w2 = "writeAttribute (writeStartElement w ''group'') ''id'' (QString_number (m_id g))"
  have w2: "?w2 = \<lparr>written = flushed w @ [indentation (length (tagStack w))],
        tagStack = ''group'' # tagStack w,
        startTag = Some (''group'', [(''id'', QString_number (m_id g))]),
        lastWasStartElement = True, wroteSomething = False\<rparr>"
    using w
    by (cases "startTag w")
       (auto simp: writeAttribute_def writeStartElement_def finishStartElement_def indent_def
                   flushed_def Let_def)
  show ?thesis
  proof (cases "m_strings g = []")
    case True
    then show ?thesis
      by (simp add: writeGroup_def Let_def w2 writeEndElement_def groupTokens_def)
  next
    case False
    have "\<not> wroteSomething ?w2" by (simp add: w2)
    from writeGroup_loop_written [OF this False, of 0] False show ?thesis
      by (simp add: writeGroup_def Let_def w2 writeEndElement_def finishStartElement_def
                    indent_def groupTokens_def flushed_def)
  qed
qed

lemma write_loop_written:
  "\<not> wroteSomething w \<Longrightarrow> gs \<noteq> [] \<Longrightarrow>
     write_loop gs w =
       \<lparr>written = flushed w @ concat (map (groupTokens (length (tagStack w))) gs),
        tagStack = tagStack w, startTag = None, lastWasStartElement = False,
        wroteSomething = False\<rparr>"
proof (induction gs arbitrary: w)
  case Nil
  then show ?case by simp
next
  case (Cons g gs)
  let ?w1 = "\<lparr>written = flushed w @ groupTokens (length (tagStack w)) g,
        tagStack = tagStack w, startTag = None, lastWasStartElement = False,
        wroteSomething = False\<rparr>"
  have step: "write_loop (g # gs) w = write_loop gs ?w1"
    using Cons.prems(1) by (simp add: writeGroup_written)
  show ?case
  proof (cases "gs = []")
    case True
    with step show ?thesis by simp
  next
    case False
    have "\<not> wroteSomething ?w1" by simp
    from Cons.IH [OF this False] step show ?thesis
      by (simp add: flushed_def)
  qed
qed

lemma write_TextFile_written:
  "write_TextFile f (Readable old) logger = (True, Readable (documentTokens f), logger)"
proof -
  let ?attrs = "[(''name'', m_name f),
         (''indexWithCounts'', if m_indexWithCounts f then ''true'' else ''false'')]"
  let ?w4 = "writeAttribute
               (writeAttribute (writeStartElement (writeStartDocument newWriter) ''strings'')
                  ''name'' (m_name f))
               ''indexWithCounts'' (if m_indexWithCounts f then ''true'' else ''false'')"
  have w4: "?w4 = \<lparr>written = [StartDocument, indentation 0], tagStack = [''strings''],
        startTag = Some (''strings'', ?attrs), lastWasStartElement = True,
        wroteSomething = False\<rparr>"
    by (simp add: writeAttribute_def writeStartElement_def writeStartDocument_def newWriter_def
                  finishStartElement_def indent_def Let_def)
  show ?thesis
  proof (cases "m_groups f = []")
    case True
    then show ?thesis
      by (simp add: write_TextFile_def Let_def w4 writeEndElement_def documentTokens_def
                    writeEndDocument.simps)
  next
    case False
    have "\<not> wroteSomething ?w4" by (simp add: w4)
    from write_loop_written [OF this False] False show ?thesis
      by (simp add: write_TextFile_def Let_def w4 writeEndElement_def finishStartElement_def
                    indent_def documentTokens_def flushed_def writeEndDocument.simps)
  qed
qed

section \<open>Reading a written document\<close>

lemma map_snd_numbered: "map snd (numbered i strs) = strs"
  by (induction strs arbitrary: i) simp_all

lemma numbered_Nil_iff: "numbered i strs = [] \<longleftrightarrow> strs = []"
  by (cases strs) simp_all

lemma sequentialFrom_numbered:
  "0 \<le> i \<Longrightarrow> i + int (length strs) \<le> 2147483648 \<Longrightarrow>
     sequentialFrom i (map fst (numbered i strs))"
proof (induction strs arbitrary: i)
  case Nil
  then show ?case by simp
next
  case (Cons s strs)
  from Cons.prems have "toInt (QString_number i) = Some i" by (intro toInt_number) simp_all
  moreover from Cons.prems have "sequentialFrom (i + 1) (map fst (numbered (i + 1) strs))"
    by (intro Cons.IH) simp_all
  ultimately show ?case by simp
qed

lemma skippable_indentation: "skippable (indentation level)"
  by (simp add: indentation_def)

lemma readGroup_reads_group:
  assumes "toInt idv = Some gid" and "\<forall>t\<in>set sep. skippable t" and "\<forall>t\<in>set sep'. skippable t"
    and "sequentialFrom 0 (map fst items)"
  shows "readGroup file
           \<lparr>current = StartElement ''group'' [(''id'', idv)],
            pending = stringElements sep items @ sep' @ EndElement ''group'' # rest\<rparr> logger =
         (True, file\<lparr>m_groups := m_groups file @ [\<lparr>m_id = gid, m_strings = map snd items\<rparr>]\<rparr>,
          \<lparr>current = EndElement ''group'', pending = rest\<rparr>, logger)"
proof -
  let ?c = "StartElement ''group'' [(''id'', idv)]"
  let ?c' = "if items = [] then ?c else EndElement ''string''"
  have c: "\<not> atEndToken ?c" "\<not> (isStartElementToken ?c \<and> tokenName ?c = ''string'')" by simp_all
  have c': "\<not> atEndToken ?c'" "\<not> (isStartElementToken ?c' \<and> tokenName ?c' = ''string'')" by simp_all
  have seq: "sequentialFrom (group_size (TextGroup_new gid)) (map fst items)"
    using assms(4) by (simp add: group_size_def TextGroup_new_def)
  have "readGroup_loop gid (TextGroup_new gid)
          \<lparr>current = ?c, pending = stringElements sep items @ sep' @ EndElement ''group'' # rest\<rparr> logger =
        readGroup_loop gid ((TextGroup_new gid)\<lparr>m_strings := m_strings (TextGroup_new gid) @ map snd items\<rparr>)
          \<lparr>current = ?c', pending = sep' @ EndElement ''group'' # rest\<rparr> logger"
    by (rule readGroup_loop_reads_strings [OF assms(2) c seq])
  also have "\<dots> = (True, \<lparr>m_id = gid, m_strings = map snd items\<rparr>,
                     \<lparr>current = EndElement ''group'', pending = rest\<rparr>, logger)"
    using readGroup_loop_ends [OF c' assms(3)] by (simp add: TextGroup_new_def)
  finally show ?thesis
    using assms(1)
    by (simp add: readGroup_def hasAttribute_def attrValue_def attributes_def)
qed

lemma readFile_loop_next:
  "readOpenTag xml ''group'' logger = (True, xml1, logger1) \<Longrightarrow>
   readGroup file xml1 logger1 = (True, file2, xml2, logger2) \<Longrightarrow>
   readCloseTag xml2 ''group'' logger2 = (True, xml3, logger3) \<Longrightarrow>
     readFile_loop file xml logger = readFile_loop file2 xml3 logger3"
  by (simp add: readFile_loop.simps [of _ xml])

lemma readFile_loop_group_fails:
  "readOpenTag xml ''group'' logger = (True, xml1, logger1) \<Longrightarrow>
   readGroup file xml1 logger1 = (False, file2, xml2, logger2) \<Longrightarrow>
     readFile_loop file xml logger = (False, file2, xml2, logger2)"
  by (simp add: readFile_loop.simps [of _ xml])

lemma readFile_loop_close_fails:
  "readOpenTag xml ''group'' logger = (True, xml1, logger1) \<Longrightarrow>
   readGroup file xml1 logger1 = (True, file2, xml2, logger2) \<Longrightarrow>
   readCloseTag xml2 ''group'' logger2 = (False, xml3, logger3) \<Longrightarrow>
     readFile_loop file xml logger = (False, file2, xml3, logger3)"
  by (simp add: readFile_loop.simps [of _ xml])

lemma readFile_loop_done:
  "readOpenTag xml ''group'' logger = (False, xml1, logger1) \<Longrightarrow>
   readCloseTag xml1 ''strings'' logger1 = (closed, xml4, logger4) \<Longrightarrow>
     readFile_loop file xml logger = (closed, file, xml4, logger4)"
  by (simp add: readFile_loop.simps [of _ xml])

lemma readFile_loop_reads_groups:
  assumes "\<forall>t\<in>set sep. skippable t"
  shows "\<not> atEndToken c \<Longrightarrow> \<not> (isStartElementToken c \<and> tokenName c = ''group'') \<Longrightarrow>
     \<forall>g\<in>set gs. - 2147483648 \<le> m_id g \<and> m_id g \<le> 2147483647 \<and>
                int (length (m_strings g)) \<le> 2147483648 \<Longrightarrow>
     readFile_loop doc
       \<lparr>current = c, pending = concat (map (groupTokens 1) gs) @ sep @ EndElement ''strings'' # rest\<rparr>
       logger =
     (True, doc\<lparr>m_groups := m_groups doc @ gs\<rparr>,
      \<lparr>current = EndElement ''strings'', pending = rest\<rparr>, logger)"
proof (induction gs arbitrary: c doc)
  case Nil
  have "readOpenTag \<lparr>current = c, pending = sep @ EndElement ''strings'' # rest\<rparr> ''group'' logger =
      (False, \<lparr>current = EndElement ''strings'', pending = rest\<rparr>, logger)"
    using Nil.prems(1,2) assms by (rule readOpenTag_ends)
  from readFile_loop_done [OF this readCloseTag_here] show ?case by simp
next
  case (Cons g gs)
  let ?as = "[(''id'', QString_number (m_id g))]"
  let ?sep' = "if m_strings g = [] then [] else [indentation 1]"
  let ?more = "concat (map (groupTokens 1) gs) @ sep @ EndElement ''strings'' # rest"
  let ?body = "stringElements [indentation 2] (numbered 0 (m_strings g)) @ ?sep' @
               EndElement ''group'' # ?more"
  from Cons.prems(3) have g: "- 2147483648 \<le> m_id g" "m_id g \<le> 2147483647"
    "int (length (m_strings g)) \<le> 2147483648" by simp_all
  have split: "concat (map (groupTokens 1) (g # gs)) @ sep @ EndElement ''strings'' # rest =
      [indentation 1] @ StartElement ''group'' ?as # ?body"
    by (simp add: groupTokens_def numeral_2_eq_2)
  have a: "readOpenTag \<lparr>current = c, pending = [indentation 1] @ StartElement ''group'' ?as # ?body\<rparr>
             ''group'' logger =
           (True, \<lparr>current = StartElement ''group'' ?as, pending = ?body\<rparr>, logger)"
    using Cons.prems(1,2) by (rule readOpenTag_finds) (simp add: skippable_indentation)
  have b: "readGroup doc \<lparr>current = StartElement ''group'' ?as, pending = ?body\<rparr> logger =
           (True, doc\<lparr>m_groups := m_groups doc @ [\<lparr>m_id = m_id g, m_strings = map snd (numbered 0 (m_strings g))\<rparr>]\<rparr>,
            \<lparr>current = EndElement ''group'', pending = ?more\<rparr>, logger)"
  proof (rule readGroup_reads_group)
    show "toInt (QString_number (m_id g)) = Some (m_id g)" using g by (intro toInt_number)
    show "\<forall>t\<in>set [indentation 2]. skippable t" by (simp add: skippable_indentation)
    show "\<forall>t\<in>set ?sep'. skippable t" by (simp add: skippable_indentation)
    show "sequentialFrom 0 (map fst (numbered 0 (m_strings g)))"
      using g by (intro sequentialFrom_numbered) simp_all
  qed
  have g_eq: "\<lparr>m_id = m_id g, m_strings = map snd (numbered 0 (m_strings g))\<rparr> = g"
    by (simp add: map_snd_numbered)
  have "readFile_loop doc
          \<lparr>current = c, pending = [indentation 1] @ StartElement ''group'' ?as # ?body\<rparr> logger =
        readFile_loop (doc\<lparr>m_groups := m_groups doc @ [g]\<rparr>)
          \<lparr>current = EndElement ''group'', pending = ?more\<rparr> logger"
    using readFile_loop_next [OF a b [unfolded g_eq] readCloseTag_here] .
  also have "\<dots> = (True, (doc\<lparr>m_groups := m_groups doc @ [g]\<rparr>)\<lparr>m_groups := m_groups (doc\<lparr>m_groups := m_groups doc @ [g]\<rparr>) @ gs\<rparr>,
      \<lparr>current = EndElement ''strings'', pending = rest\<rparr>, logger)"
    using Cons.prems(3) by (intro Cons.IH) simp_all
  finally show ?case unfolding split by simp
qed

lemma read_documentTokens:
  assumes "wellFormed f"
  shows "read doc (Readable (documentTokens f)) logger =
         (True, doc\<lparr>m_name := m_name f, m_indexWithCounts := m_indexWithCounts f,
                     m_groups := m_groups doc @ m_groups f\<rparr>, logger)"
proof -
  let ?as = "[(''name'', m_name f),
         (''indexWithCounts'', if m_indexWithCounts f then ''true'' else ''false'')]"
  let ?sep = "if m_groups f = [] then [] else [indentation 0]"
  let ?body = "concat (map (groupTokens 1) (m_groups f)) @ ?sep @ EndElement ''strings'' # [EndDocument]"
  let ?doc2 = "doc\<lparr>m_name := m_name f, m_indexWithCounts := m_indexWithCounts f\<rparr>"
  define xml1 where "xml1 = \<lparr>current = StartElement ''strings'' ?as, pending = ?body\<rparr>"
  have toks: "documentTokens f = [StartDocument, indentation 0] @ StartElement ''strings'' ?as # ?body"
    by (simp add: documentTokens_def)
  have a: "readOpenTag \<lparr>current = NoToken, pending = documentTokens f\<rparr> ''strings'' logger =
           (True, xml1, logger)"
    unfolding toks xml1_def
    by (rule readOpenTag_finds) (simp_all add: skippable_indentation)
  have attrs: "hasAttribute (attributes xml1) ''name''"
    "attrValue (attributes xml1) ''name'' = m_name f"
    "hasAttribute (attributes xml1) ''indexWithCounts''"
    "(attrValue (attributes xml1) ''indexWithCounts'' \<noteq> ''false'') = m_indexWithCounts f"
    by (simp_all add: xml1_def hasAttribute_def attrValue_def attributes_def)
  have wf: "\<forall>g\<in>set (m_groups f). - 2147483648 \<le> m_id g \<and> m_id g \<le> 2147483647 \<and>
                int (length (m_strings g)) \<le> 2147483648"
    using assms by (simp add: wellFormed_def list_all_iff)
  have b: "readFile_loop ?doc2 xml1 logger =
      (True, ?doc2\<lparr>m_groups := m_groups ?doc2 @ m_groups f\<rparr>,
       \<lparr>current = EndElement ''strings'', pending = [EndDocument]\<rparr>, logger)"
    unfolding xml1_def
    by (rule readFile_loop_reads_groups [OF _ _ _ wf]) (simp_all add: skippable_indentation)
  have "readFile doc \<lparr>current = NoToken, pending = documentTokens f\<rparr> logger =
      (True, ?doc2\<lparr>m_groups := m_groups ?doc2 @ m_groups f\<rparr>,
       \<lparr>current = EndElement ''strings'', pending = [EndDocument]\<rparr>, logger)"
    by (simp add: readFile_def a attrs b)
  then show ?thesis by (simp add: read_def)
qed

section \<open>What the reader leaves in the document\<close>

lemma readGroup_loop_id:
  "readGroup_loop gid grp xml logger = (ok, grp', xml', logger') \<Longrightarrow> m_id grp' = m_id grp"
proof (induction "remaining xml" arbitrary: xml grp logger rule: less_induct)
  case less
  obtain found xml1 logger1 where a: "readOpenTag xml ''string'' logger = (found, xml1, logger1)"
    by (cases "readOpenTag xml ''string'' logger") auto
  show ?case
  proof (cases found)
    case False
    with a have "readOpenTag xml ''string'' logger = (False, xml1, logger1)" by simp
    from readGroup_loop_done [OF this] less.prems show ?thesis by auto
  next
    case True
    with a have a': "readOpenTag xml ''string'' logger = (True, xml1, logger1)" by simp
    show ?thesis
    proof (cases "toInt (attrValue (attributes xml1) ''id'')")
      case None
      from readGroup_loop_badId [OF a' None] less.prems show ?thesis by auto
    next
      case (Some textId)
      show ?thesis
      proof (cases "textId = group_size grp")
        case False
        from readGroup_loop_misordered [OF a' Some False] less.prems show ?thesis by auto
      next
        case eq: True
        obtain str xml2 where b: "readElementText xml1 = (str, xml2)"
          by (cases "readElementText xml1") auto
        obtain closed xml3 logger3
          where c: "readCloseTag xml2 ''string'' logger1 = (closed, xml3, logger3)"
          by (cases "readCloseTag xml2 ''string'' logger1") auto
        from readOpenTag_found [OF a'] have "isStartElement xml1" by simp
        from readElementText_remaining [OF b this] readCloseTag_remaining [OF c]
          readOpenTag_remaining [OF a']
        have lt: "remaining xml3 < remaining xml" by simp
        from less.prems readGroup_loop_next [OF a' Some [unfolded eq] b c]
        have "readGroup_loop gid (group_add grp str) xml3 logger3 = (ok, grp', xml', logger')"
          by simp
        from less.hyps [OF lt this] show ?thesis by (simp add: group_add_def)
      qed
    qed
  qed
qed

lemma readGroup_result:
  "readGroup doc xml logger = (ok, doc', xml', logger') \<Longrightarrow>
     (if ok then \<exists>g. toInt (attrValue (attributes xml) ''id'') = Some (m_id g) \<and>
                   doc' = doc\<lparr>m_groups := m_groups doc @ [g]\<rparr>
      else doc' = doc)"
proof -
  assume r: "readGroup doc xml logger = (ok, doc', xml', logger')"
  show ?thesis
  proof (cases "hasAttribute (attributes xml) ''id''")
    case False
    with r show ?thesis by (auto simp: readGroup_def)
  next
    case True
    show ?thesis
    proof (cases "toInt (attrValue (attributes xml) ''id'')")
      case None
      with True r show ?thesis by (auto simp: readGroup_def)
    next
      case (Some gid)
      obtain ok1 grp xml1 logger1
        where l: "readGroup_loop gid (TextGroup_new gid) xml logger = (ok1, grp, xml1, logger1)"
        by (cases "readGroup_loop gid (TextGroup_new gid) xml logger") auto
      from readGroup_loop_id [OF l] have "m_id grp = gid" by (simp add: TextGroup_new_def)
      with True Some l r show ?thesis
        by (auto simp: readGroup_def split: if_splits)
    qed
  qed
qed

lemma readGroup_keeps:
  "readGroup doc xml logger = (ok, doc', xml', logger') \<Longrightarrow>
     m_name doc' = m_name doc \<and> m_indexWithCounts doc' = m_indexWithCounts doc"
  by (drule readGroup_result) (auto split: if_splits)

lemma readFile_loop_keeps:
  "readFile_loop doc xml logger = (ok, doc', xml', logger') \<Longrightarrow>
     m_name doc' = m_name doc \<and> m_indexWithCounts doc' = m_indexWithCounts doc"
proof (induction "remaining xml" arbitrary: xml doc logger rule: less_induct)
  case less
  obtain found xml1 logger1 where a: "readOpenTag xml ''group'' logger = (found, xml1, logger1)"
    by (cases "readOpenTag xml ''group'' logger") auto
  show ?case
  proof (cases found)
    case False
    with a have a': "readOpenTag xml ''group'' logger = (False, xml1, logger1)" by simp
    obtain closed xml4 logger4
      where c: "readCloseTag xml1 ''strings'' logger1 = (closed, xml4, logger4)"
      by (cases "readCloseTag xml1 ''strings'' logger1") auto
    from readFile_loop_done [OF a' c] less.prems show ?thesis by auto
  next
    case True
    with a have a': "readOpenTag xml ''group'' logger = (True, xml1, logger1)" by simp
    obtain ok2 doc2 xml2 logger2 where b: "readGroup doc xml1 logger1 = (ok2, doc2, xml2, logger2)"
      by (cases "readGroup doc xml1 logger1") auto
    note keep = readGroup_keeps [OF b]
    show ?thesis
    proof (cases ok2)
      case False
      with b have "readGroup doc xml1 logger1 = (False, doc2, xml2, logger2)" by simp
      from readFile_loop_group_fails [OF a' this] less.prems keep show ?thesis by auto
    next
      case ok2: True
      with b have b': "readGroup doc xml1 logger1 = (True, doc2, xml2, logger2)" by simp
      obtain closed xml3 logger3
        where c: "readCloseTag xml2 ''group'' logger2 = (closed, xml3, logger3)"
        by (cases "readCloseTag xml2 ''group'' logger2") auto
      show ?thesis
      proof (cases closed)
        case False
        with c have "readCloseTag xml2 ''group'' logger2 = (False, xml3, logger3)" by simp
        from readFile_loop_close_fails [OF a' b' this] less.prems keep show ?thesis by auto
      next
        case True
        with c have c': "readCloseTag xml2 ''group'' logger2 = (True, xml3, logger3)" by simp
        from readGroup_remaining [OF b'] readOpenTag_found [OF a']
        have "remaining xml2 < remaining xml1" by simp
        with readCloseTag_remaining [OF c'] readOpenTag_remaining [OF a']
        have lt: "remaining xml3 < remaining xml" by simp
        from readFile_loop_next [OF a' b' c'] less.prems
        have "readFile_loop doc2 xml3 logger3 = (ok, doc', xml', logger')" by simp
        from less.hyps [OF lt this] keep show ?thesis by simp
      qed
    qed
  qed
qed

lemma readFile_loop_appends:
  "readFile_loop doc xml logger = (ok, doc', xml', logger') \<Longrightarrow>
     \<exists>gs. m_groups doc' = m_groups doc @ gs"
proof (induction "remaining xml" arbitrary: xml doc logger rule: less_induct)
  case less
  obtain found xml1 logger1 where a: "readOpenTag xml ''group'' logger = (found, xml1, logger1)"
    by (cases "readOpenTag xml ''group'' logger") auto
  show ?case
  proof (cases found)
    case False
    with a have a': "readOpenTag xml ''group'' logger = (False, xml1, logger1)" by simp
    obtain closed xml4 logger4
      where c: "readCloseTag xml1 ''strings'' logger1 = (closed, xml4, logger4)"
      by (cases "readCloseTag xml1 ''strings'' logger1") auto
    from readFile_loop_done [OF a' c] less.prems show ?thesis by auto
  next
    case True
    with a have a': "readOpenTag xml ''group'' logger = (True, xml1, logger1)" by simp
    obtain ok2 doc2 xml2 logger2 where b: "readGroup doc xml1 logger1 = (ok2, doc2, xml2, logger2)"
      by (cases "readGroup doc xml1 logger1") auto
    from readGroup_result [OF b] have app: "\<exists>gs. m_groups doc2 = m_groups doc @ gs"
      by (auto split: if_splits)
    show ?thesis
    proof (cases ok2)
      case False
      with b have "readGroup doc xml1 logger1 = (False, doc2, xml2, logger2)" by simp
      from readFile_loop_group_fails [OF a' this] less.prems app show ?thesis by auto
    next
      case ok2: True
      with b have b': "readGroup doc xml1 logger1 = (True, doc2, xml2, logger2)" by simp
      obtain closed xml3 logger3
        where c: "readCloseTag xml2 ''group'' logger2 = (closed, xml3, logger3)"
        by (cases "readCloseTag xml2 ''group'' logger2") auto
      show ?thesis
      proof (cases closed)
        case False
        with c have "readCloseTag xml2 ''group'' logger2 = (False, xml3, logger3)" by simp
        from readFile_loop_close_fails [OF a' b' this] less.prems app show ?thesis by auto
      next
        case True
        with c have c': "readCloseTag xml2 ''group'' logger2 = (True, xml3, logger3)" by simp
        from readGroup_remaining [OF b'] readOpenTag_found [OF a']
        have "remaining xml2 < remaining xml1" by simp
        with readCloseTag_remaining [OF c'] readOpenTag_remaining [OF a']
        have lt: "remaining xml3 < remaining xml" by simp
        from readFile_loop_next [OF a' b' c'] less.prems
        have "readFile_loop doc2 xml3 logger3 = (ok, doc', xml', logger')" by simp
        from less.hyps [OF lt this] app show ?thesis by auto
      qed
    qed
  qed
qed

section \<open>Groups with misnumbered strings\<close>

lemma stringElements_append:
  "stringElements sep (xs @ ys) = stringElements sep xs @ stringElements sep ys"
  by (induction xs) auto

lemma readGroup_rejects_group:
  assumes "toInt idv = Some gid" and "\<forall>t\<in>set sep. skippable t"
    and "sequentialFrom 0 (map fst good)" and "toInt idw = Some k" and "k \<noteq> int (length good)"
  shows "readGroup doc
           \<lparr>current = StartElement ''group'' [(''id'', idv)],
            pending = stringElements sep (good @ (idw, s) # later) @ rest\<rparr> logger =
         (False, doc,
          \<lparr>current = StartElement ''string'' [(''id'', idw)],
            pending = textTokens s @ EndElement ''string'' # stringElements sep later @ rest\<rparr>,
          logger @ [''Strings in group '' @ QString_number gid @ '' are not ordered properly''])"
proof -
  let ?c = "StartElement ''group'' [(''id'', idv)]"
  let ?c' = "if good = [] then ?c else EndElement ''string''"
  let ?grp = "(TextGroup_new gid)\<lparr>m_strings := m_strings (TextGroup_new gid) @ map snd good\<rparr>"
  let ?tail = "sep @ stringElement idw s @ stringElements sep later @ rest"
  have c: "\<not> atEndToken ?c" "\<not> (isStartElementToken ?c \<and> tokenName ?c = ''string'')" by simp_all
  have c': "\<not> atEndToken ?c'" "\<not> (isStartElementToken ?c' \<and> tokenName ?c' = ''string'')" by simp_all
  have seq: "sequentialFrom (group_size (TextGroup_new gid)) (map fst good)"
    using assms(3) by (simp add: group_size_def TextGroup_new_def)
  have k: "k \<noteq> group_size ?grp"
    using assms(5) by (simp add: group_size_def TextGroup_new_def)
  have toks: "stringElements sep (good @ (idw, s) # later) @ rest = stringElements sep good @ ?tail"
    by (simp add: stringElements_append)
  have "readGroup_loop gid (TextGroup_new gid)
          \<lparr>current = ?c, pending = stringElements sep good @ ?tail\<rparr> logger =
        readGroup_loop gid ?grp \<lparr>current = ?c', pending = ?tail\<rparr> logger"
    by (rule readGroup_loop_reads_strings [OF assms(2) c seq])
  also have "\<dots> = (False, ?grp,
          \<lparr>current = StartElement ''string'' [(''id'', idw)],
            pending = textTokens s @ EndElement ''string'' # stringElements sep later @ rest\<rparr>,
          logger @ [''Strings in group '' @ QString_number gid @ '' are not ordered properly''])"
    by (rule readGroup_loop_rejects_misordered [OF c' assms(2,4) k])
  finally show ?thesis
    using assms(1) unfolding toks
    by (simp add: readGroup_def hasAttribute_def attrValue_def attributes_def)
qed

lemma toInt_small: "toInt ''0'' = Some 0" "toInt ''1'' = Some 1" "toInt ''2'' = Some 2"
  "toInt ''3'' = Some 3" "toInt ''7'' = Some 7"
  by code_simp+

text \<open>
  What \<open>readGroup\<close> does with the \<open>string\<close> elements that its loop reaches: an id that
  parses to a number other than the number of strings held so far fails the loop with
  \<open>Strings in group N are not ordered properly\<close>; an id that parses to that number has
  the text appended and the loop goes on behind the element. So a \<open>group\<close> element
  with nothing but \<open>string\<close> elements whose ids parse to 0, 1, 2, ... is accepted, and
  one whose first id out of sequence parses to another number is rejected.
\<close>

lemma readGroup_checks_string_ids:
  "(readOpenTag xml ''string'' logger = (True, elem, loggere) \<and>
    toInt (attrValue (attributes elem) ''id'') = Some textId \<and> textId \<noteq> group_size grp
      \<longrightarrow> readGroup_loop gid grp xml logger =
            (False, grp, elem,
             loggere @ [''Strings in group '' @ QString_number gid @ '' are not ordered properly'']))
   \<and> (readOpenTag xml ''string'' logger = (True, elem, loggere) \<and>
      toInt (attrValue (attributes elem) ''id'') = Some (group_size grp) \<and>
      readElementText elem = (str, xmlt) \<and>
      readCloseTag xmlt ''string'' loggere = (closed, xmlc, loggerc)
      \<longrightarrow> readGroup_loop gid grp xml logger = readGroup_loop gid (group_add grp str) xmlc loggerc)
   \<and> (toInt idv = Some gid \<and> (\<forall>t\<in>set sep. skippable t) \<and> (\<forall>t\<in>set sep'. skippable t) \<and>
      sequentialFrom 0 (map fst items)
      \<longrightarrow> readGroup doc
            \<lparr>current = StartElement ''group'' [(''id'', idv)],
             pending = stringElements sep items @ sep' @ EndElement ''group'' # rest\<rparr> logger =
          (True, doc\<lparr>m_groups := m_groups doc @ [\<lparr>m_id = gid, m_strings = map snd items\<rparr>]\<rparr>,
           \<lparr>current = EndElement ''group'', pending = rest\<rparr>, logger))
   \<and> (toInt idv = Some gid \<and> (\<forall>t\<in>set sep. skippable t) \<and>
      sequentialFrom 0 (map fst good) \<and> toInt idw = Some k \<and> k \<noteq> int (length good)
      \<longrightarrow> readGroup doc
            \<lparr>current = StartElement ''group'' [(''id'', idv)],
             pending = stringElements sep (good @ (idw, s) # later) @ rest\<rparr> logger =
          (False, doc,
           \<lparr>current = StartElement ''string'' [(''id'', idw)],
             pending = textTokens s @ EndElement ''string'' # stringElements sep later @ rest\<rparr>,
           logger @ [''Strings in group '' @ QString_number gid @ '' are not ordered properly'']))"
proof (intro conjI impI)
  assume "readOpenTag xml ''string'' logger = (True, elem, loggere) \<and>
    toInt (attrValue (attributes elem) ''id'') = Some textId \<and> textId \<noteq> group_size grp"
  then show "readGroup_loop gid grp xml logger =
            (False, grp, elem,
             loggere @ [''Strings in group '' @ QString_number gid @ '' are not ordered properly''])"
    using readGroup_loop_misordered [of xml logger elem loggere textId grp gid] by simp
next
  assume "readOpenTag xml ''string'' logger = (True, elem, loggere) \<and>
      toInt (attrValue (attributes elem) ''id'') = Some (group_size grp) \<and>
      readElementText elem = (str, xmlt) \<and>
      readCloseTag xmlt ''string'' loggere = (closed, xmlc, loggerc)"
  then show "readGroup_loop gid grp xml logger = readGroup_loop gid (group_add grp str) xmlc loggerc"
    using readGroup_loop_next [of xml logger elem loggere grp str xmlt closed xmlc loggerc gid]
    by simp
next
  assume "toInt idv = Some gid \<and> (\<forall>t\<in>set sep. skippable t) \<and> (\<forall>t\<in>set sep'. skippable t) \<and>
      sequentialFrom 0 (map fst items)"
  then show "readGroup doc
            \<lparr>current = StartElement ''group'' [(''id'', idv)],
             pending = stringElements sep items @ sep' @ EndElement ''group'' # rest\<rparr> logger =
          (True, doc\<lparr>m_groups := m_groups doc @ [\<lparr>m_id = gid, m_strings = map snd items\<rparr>]\<rparr>,
           \<lparr>current = EndElement ''group'', pending = rest\<rparr>, logger)"
    using readGroup_reads_group [of idv gid sep sep' items doc rest logger] by simp
next
  assume "toInt idv = Some gid \<and> (\<forall>t\<in>set sep. skippable t) \<and>
      sequentialFrom 0 (map fst good) \<and> toInt idw = Some k \<and> k \<noteq> int (length good)"
  then show "readGroup doc
            \<lparr>current = StartElement ''group'' [(''id'', idv)],
             pending = stringElements sep (good @ (idw, s) # later) @ rest\<rparr> logger =
          (False, doc,
           \<lparr>current = StartElement ''string'' [(''id'', idw)],
             pending = textTokens s @ EndElement ''string'' # stringElements sep later @ rest\<rparr>,
           logger @ [''Strings in group '' @ QString_number gid @ '' are not ordered properly''])"
    using readGroup_rejects_group [of idv gid sep good idw k doc s later rest logger] by simp
qed

lemma readGroup_checks_string_ids_example:
  "readGroup TextFile_new
     \<lparr>current = StartElement ''group'' [(''id'', ''7'')],
      pending = [StartElement ''string'' [(''id'', ''0'')], Characters ''a'', EndElement ''string'',
                 StartElement ''string'' [(''id'', ''1'')], Characters ''b'', EndElement ''string'',
                 StartElement ''string'' [(''id'', ''3'')], Characters ''c'', EndElement ''string'',
                 EndElement ''group'']\<rparr> [] =
     (False, TextFile_new,
      \<lparr>current = StartElement ''string'' [(''id'', ''3'')],
        pending = [Characters ''c'', EndElement ''string'', EndElement ''group'']\<rparr>,
      [''Strings in group 7 are not ordered properly''])
   \<and> readGroup TextFile_new
     \<lparr>current = StartElement ''group'' [(''id'', ''7'')],
      pending = [StartElement ''string'' [(''id'', ''0'')], Characters ''a'', EndElement ''string'',
                 StartElement ''string'' [(''id'', ''1'')], Characters ''b'', EndElement ''string'',
                 StartElement ''string'' [(''id'', ''2'')], Characters ''c'', EndElement ''string'',
                 EndElement ''group'']\<rparr> [] =
     (True, \<lparr>m_name = [], m_indexWithCounts = True,
             m_groups = [\<lparr>m_id = 7, m_strings = [''a'', ''b'', ''c'']\<rparr>]\<rparr>,
      \<lparr>current = EndElement ''group'', pending = []\<rparr>, [])
   \<and> readGroup_loop 7 \<lparr>m_id = 7, m_strings = [''a'', ''b'']\<rparr>
       \<lparr>current = EndElement ''string'',
        pending = [StartElement ''string'' [(''id'', ''3'')], Characters ''c'', EndElement ''string'',
                   EndElement ''group'']\<rparr> [] =
     (False, \<lparr>m_id = 7, m_strings = [''a'', ''b'']\<rparr>,
      \<lparr>current = StartElement ''string'' [(''id'', ''3'')],
        pending = [Characters ''c'', EndElement ''string'', EndElement ''group'']\<rparr>,
      [''Strings in group 7 are not ordered properly''])
   \<and> readGroup_loop 7 \<lparr>m_id = 7, m_strings = [''a'', ''b'']\<rparr>
       \<lparr>current = EndElement ''string'',
        pending = [StartElement ''string'' [(''id'', ''2'')], Characters ''c'', EndElement ''string'',
                   EndElement ''group'']\<rparr> [] =
     readGroup_loop 7 \<lparr>m_id = 7, m_strings = [''a'', ''b'', ''c'']\<rparr>
       \<lparr>current = EndElement ''string'', pending = [EndElement ''group'']\<rparr> []"
proof -
  let ?x3 = "\<lparr>current = EndElement ''string'',
        pending = [StartElement ''string'' [(''id'', ''3'')], Characters ''c'', EndElement ''string'',
                   EndElement ''group'']\<rparr>"
  let ?e3 = "\<lparr>current = StartElement ''string'' [(''id'', ''3'')],
        pending = [Characters ''c'', EndElement ''string'', EndElement ''group'']\<rparr>"
  let ?x2 = "\<lparr>current = EndElement ''string'',
        pending = [StartElement ''string'' [(''id'', ''2'')], Characters ''c'', EndElement ''string'',
                   EndElement ''group'']\<rparr>"
  let ?e2 = "\<lparr>current = StartElement ''string'' [(''id'', ''2'')],
        pending = [Characters ''c'', EndElement ''string'', EndElement ''group'']\<rparr>"
  let ?end = "\<lparr>current = EndElement ''string'', pending = [EndElement ''group'']\<rparr>"
  let ?grp = "\<lparr>m_id = 7, m_strings = [''a'', ''b'']\<rparr>"
  have o3: "readOpenTag ?x3 ''string'' [] = (True, ?e3, [])" by code_simp
  have o2: "readOpenTag ?x2 ''string'' [] = (True, ?e2, [])" by code_simp
  have t2: "readElementText ?e2 = (''c'', ?end)" by code_simp
  have c2: "readCloseTag ?end ''string'' [] = (True, ?end, [])" by code_simp
  have n7: "QString_number 7 = ''7''" by code_simp
  from o3 o2 t2 c2 n7
    readGroup_checks_string_ids
      [where idv = "''7''" and gid = 7 and sep = "[]" and sep' = "[]" and doc = TextFile_new
         and items = "[(''0'', ''a''), (''1'', ''b''), (''2'', ''c'')]" and rest = "[]" and logger = "[]"
         and xml = ?x3 and elem = ?e3 and loggere = "[]" and textId = 3 and grp = ?grp]
    readGroup_checks_string_ids
      [where idv = "''7''" and gid = 7 and sep = "[]" and doc = TextFile_new
         and rest = "[EndElement ''group'']" and logger = "[]"
         and good = "[(''0'', ''a''), (''1'', ''b'')]" and idw = "''3''" and k = 3 and s = "''c''"
         and later = "[]"]
    readGroup_checks_string_ids
      [where gid = 7 and logger = "[]" and xml = ?x2 and elem = ?e2 and loggere = "[]" and grp = ?grp
         and str = "''c''" and xmlt = ?end and closed = True and xmlc = ?end and loggerc = "[]"]
  show ?thesis
    by (simp add: toInt_small stringElement_def textTokens_def TextFile_new_def group_size_def
                  group_add_def attributes_def attrValue_def)
qed

section \<open>A document with a string element that has no id\<close>

lemma read_string_without_id_example:
  "read TextFile_new
     (Readable [StartDocument, StartElement ''strings'' [],
                StartElement ''group'' [(''id'', ''4'')],
                StartElement ''string'' [(''id'', ''0'')], Characters ''a'', EndElement ''string'',
                StartElement ''string'' [], Characters ''b'', EndElement ''string'',
                EndElement ''group'', EndElement ''strings'', EndDocument]) [] =
   (False, TextFile_new, [''String ID is not an integer: ''])"
  by code_simp

text \<open>
  \<open>readGroup\<close> never asks whether a \<open>string\<close> element has an \<open>id\<close> attribute. For an
  element that its loop reaches and that has none, the value read is empty, \<open>toInt\<close>
  rejects it, and the loop fails with \<open>String ID is not an integer:\<close> followed by the
  empty value; the failure of the loop is that of \<open>readGroup\<close> and of the loop of
  \<open>readFile\<close>.
\<close>

lemma readGroup_string_without_id:
  "(readOpenTag xml ''string'' logger = (True, elem, loggere) \<and>
    \<not> hasAttribute (attributes elem) ''id''
      \<longrightarrow> readGroup_loop gid grp xml logger =
            (False, grp, elem, loggere @ [''String ID is not an integer: '']))
   \<and> (hasAttribute (attributes xml) ''id'' \<and> toInt (attrValue (attributes xml) ''id'') = Some gid \<and>
      readGroup_loop gid (TextGroup_new gid) xml logger = (False, grp', xml', logger')
      \<longrightarrow> readGroup doc xml logger = (False, doc, xml', logger'))
   \<and> (readOpenTag xml ''group'' logger = (True, elem, loggere) \<and>
      readGroup doc elem loggere = (False, doc', xml', logger')
      \<longrightarrow> readFile_loop doc xml logger = (False, doc', xml', logger'))"
proof (intro conjI impI)
  assume a: "readOpenTag xml ''string'' logger = (True, elem, loggere) \<and>
    \<not> hasAttribute (attributes elem) ''id''"
  then have "attrValue (attributes elem) ''id'' = []"
    by (simp add: hasAttribute_def attrValue_def)
  with a readGroup_loop_badId [of xml logger elem loggere gid grp]
  show "readGroup_loop gid grp xml logger =
            (False, grp, elem, loggere @ [''String ID is not an integer: ''])"
    by (simp add: toInt_empty)
next
  assume "hasAttribute (attributes xml) ''id'' \<and> toInt (attrValue (attributes xml) ''id'') = Some gid \<and>
      readGroup_loop gid (TextGroup_new gid) xml logger = (False, grp', xml', logger')"
  then show "readGroup doc xml logger = (False, doc, xml', logger')"
    by (simp add: readGroup_def)
next
  assume "readOpenTag xml ''group'' logger = (True, elem, loggere) \<and>
      readGroup doc elem loggere = (False, doc', xml', logger')"
  then show "readFile_loop doc xml logger = (False, doc', xml', logger')"
    using readFile_loop_group_fails [of xml logger elem loggere doc doc' xml' logger'] by simp
qed

lemma readGroup_string_without_id_example:
  "readOpenTag
     \<lparr>current = EndElement ''string'',
      pending = [StartElement ''string'' [(''name'', ''b'')], Characters ''b'', EndElement ''string'',
                 EndElement ''group'', EndElement ''strings'']\<rparr> ''string'' [] =
     (True, \<lparr>current = StartElement ''string'' [(''name'', ''b'')],
             pending = [Characters ''b'', EndElement ''string'', EndElement ''group'',
                        EndElement ''strings'']\<rparr>, [])
   \<and> readGroup_loop 4 \<lparr>m_id = 4, m_strings = [''a'']\<rparr>
       \<lparr>current = EndElement ''string'',
        pending = [StartElement ''string'' [(''name'', ''b'')], Characters ''b'', EndElement ''string'',
                   EndElement ''group'', EndElement ''strings'']\<rparr> [] =
     (False, \<lparr>m_id = 4, m_strings = [''a'']\<rparr>,
      \<lparr>current = StartElement ''string'' [(''name'', ''b'')],
        pending = [Characters ''b'', EndElement ''string'', EndElement ''group'',
                   EndElement ''strings'']\<rparr>,
      [''String ID is not an integer: ''])
   \<and> readGroup TextFile_new
       \<lparr>current = StartElement ''group'' [(''id'', ''4'')],
        pending = [StartElement ''string'' [], EndElement ''string'', EndElement ''group'']\<rparr> [] =
     (False, TextFile_new,
      \<lparr>current = StartElement ''string'' [], pending = [EndElement ''string'', EndElement ''group'']\<rparr>,
      [''String ID is not an integer: ''])
   \<and> readFile_loop TextFile_new
       \<lparr>current = StartElement ''strings'' [],
        pending = [StartElement ''group'' [(''id'', ''4'')], StartElement ''string'' [],
                   EndElement ''string'', EndElement ''group'']\<rparr> [] =
     (False, TextFile_new,
      \<lparr>current = StartElement ''string'' [], pending = [EndElement ''string'', EndElement ''group'']\<rparr>,
      [''String ID is not an integer: ''])"
proof -
  let ?x = "\<lparr>current = EndElement ''string'',
      pending = [StartElement ''string'' [(''name'', ''b'')], Characters ''b'', EndElement ''string'',
                 EndElement ''group'', EndElement ''strings'']\<rparr>"
  let ?e = "\<lparr>current = StartElement ''string'' [(''name'', ''b'')],
             pending = [Characters ''b'', EndElement ''string'', EndElement ''group'',
                        EndElement ''strings'']\<rparr>"
  let ?g = "\<lparr>current = StartElement ''group'' [(''id'', ''4'')],
        pending = [StartElement ''string'' [], EndElement ''string'', EndElement ''group'']\<rparr>"
  let ?s = "\<lparr>current = StartElement ''string'' [], pending = [EndElement ''string'', EndElement ''group'']\<rparr>"
  let ?r = "\<lparr>current = StartElement ''strings'' [],
        pending = [StartElement ''group'' [(''id'', ''4'')], StartElement ''string'' [],
                   EndElement ''string'', EndElement ''group'']\<rparr>"
  have o: "readOpenTag ?x ''string'' [] = (True, ?e, [])" by code_simp
  have h: "\<not> hasAttribute (attributes ?e) ''id''" by code_simp
  have i: "hasAttribute (attributes ?g) ''id''" "toInt (attrValue (attributes ?g) ''id'') = Some 4"
    by code_simp+
  have l: "readGroup_loop 4 (TextGroup_new 4) ?g [] =
      (False, TextGroup_new 4, ?s, [''String ID is not an integer: ''])"
    by code_simp
  have og: "readOpenTag ?r ''group'' [] = (True, ?g, [])" by code_simp
  have rg: "readGroup TextFile_new ?g [] = (False, TextFile_new, ?s, [''String ID is not an integer: ''])"
    by code_simp
  from o h i l og rg
    readGroup_string_without_id
      [where xml = ?x and logger = "[]" and elem = ?e and loggere = "[]" and gid = 4
         and grp = "\<lparr>m_id = 4, m_strings = [''a'']\<rparr>"]
    readGroup_string_without_id
      [where xml = ?g and logger = "[]" and gid = 4 and grp' = "TextGroup_new 4" and xml' = ?s
         and logger' = "[''String ID is not an integer: '']" and doc = TextFile_new]
    readGroup_string_without_id
      [where xml = ?r and logger = "[]" and elem = ?g and loggere = "[]" and doc = TextFile_new
         and doc' = TextFile_new and xml' = ?s and logger' = "[''String ID is not an integer: '']"]
  show ?thesis by simp
qed

lemma read_root_level_string_example:
  "read TextFile_new
     (Readable [StartDocument, StartElement ''strings'' [],
                StartElement ''string'' [], Characters ''b'', EndElement ''string'',
                EndElement ''strings'', EndDocument]) [] =
     (True, TextFile_new, [''Invalid XML: expected tag <group>, got <string>''])"
  by code_simp

section \<open>Claims\<close>

text \<open>
  C1. The claim: once an operation has logged an error, \<open>read\<close> returns failure. On the
  tokens of \<open><strings><foo/></strings>\<close> the loop over the groups ends when
  \<open>readOpenTag\<close> fails on \<open><foo>\<close>, which logs \<open>Invalid XML: expected tag <group>, got <foo>\<close>;
  \<open>readCloseTag\<close> then finds \<open></strings>\<close> and \<open>read\<close> returns success.
\<close>

theorem read_returns_success_after_logged_error:
  "read TextFile_new
     (Readable [StartDocument, StartElement ''strings'' [], StartElement ''foo'' [],
                EndElement ''foo'', EndElement ''strings'', EndDocument]) [] =
   (True, TextFile_new, [''Invalid XML: expected tag <group>, got <foo>''])"
  by code_simp

text \<open>
  C2. A search of \<open>readOpenTag\<close> that started (the reader was not at its end, and not
  already on the requested start element) and that meets an end element or the end of
  the document, after any number of tokens that it passes over, returns failure and
  leaves the logger as it was. Whenever \<open>readOpenTag\<close> does log a message, it has
  failed, and the reader stands on a start element of another name, or on an invalid
  token, or it was at its end already when the call began.
\<close>

theorem readOpenTag_silent_on_end_tokens:
  "(\<not> atEndToken c \<and> \<not> (isStartElementToken c \<and> tokenName c = tag) \<and>
    (\<forall>s\<in>set skipped. skippable s) \<and> (t = EndDocument \<or> t = EndElement n)
      \<longrightarrow> readOpenTag \<lparr>current = c, pending = skipped @ t # ts\<rparr> tag logger =
            (False, \<lparr>current = t, pending = ts\<rparr>, logger))
   \<and> (readOpenTag xml tag logger = (ok, xml', logger') \<and> logger' \<noteq> logger
      \<longrightarrow> \<not> ok \<and>
          ((isStartElement xml' \<and> xmlName xml' \<noteq> tag \<and>
            logger' = logger @ [''Invalid XML: expected tag <'' @ tag @ ''>, got <'' @ xmlName xml' @ ''>''])
           \<or> (isInvalid (current xml') \<and> \<not> atEnd xml \<and> logger' = logger @ [''Invalid XML: %s''])
           \<or> (atEnd xml \<and> xml' = xml \<and> logger' = logger @ [''Invalid XML: unexpected end of file''])))"
proof (rule conjI; rule impI)
  assume a: "\<not> atEndToken c \<and> \<not> (isStartElementToken c \<and> tokenName c = tag) \<and>
    (\<forall>s\<in>set skipped. skippable s) \<and> (t = EndDocument \<or> t = EndElement n)"
  then have "\<not> skippable t" by auto
  with a have "readOpenTag_loop \<lparr>current = c, pending = skipped @ t # ts\<rparr> tag logger =
      (False, \<lparr>current = t, pending = ts\<rparr>, logger)"
    by (auto simp: readOpenTag_loop_skips)
  with a show "readOpenTag \<lparr>current = c, pending = skipped @ t # ts\<rparr> tag logger =
      (False, \<lparr>current = t, pending = ts\<rparr>, logger)"
    by (simp add: readOpenTag_def isStartElement_def xmlName_def)
next
  assume b: "readOpenTag xml tag logger = (ok, xml', logger') \<and> logger' \<noteq> logger"
  then have "readOpenTag_loop xml tag logger = (ok, xml', logger')"
    by (auto simp: readOpenTag_def split: if_splits)
  from readOpenTag_loop_cases [OF this] b
  show "\<not> ok \<and>
          ((isStartElement xml' \<and> xmlName xml' \<noteq> tag \<and>
            logger' = logger @ [''Invalid XML: expected tag <'' @ tag @ ''>, got <'' @ xmlName xml' @ ''>''])
           \<or> (isInvalid (current xml') \<and> \<not> atEnd xml \<and> logger' = logger @ [''Invalid XML: %s''])
           \<or> (atEnd xml \<and> xml' = xml \<and> logger' = logger @ [''Invalid XML: unexpected end of file'']))"
    by auto
qed

theorem readOpenTag_silent_on_end_tokens_witness:
  "readOpenTag \<lparr>current = StartElement ''group'' [(''id'', ''0'')],
                pending = [Characters '' '', Comment, EndElement ''group'', EndElement ''strings'']\<rparr>
     ''string'' [] =
     (False, \<lparr>current = EndElement ''group'', pending = [EndElement ''strings'']\<rparr>, [])
   \<and> readOpenTag \<lparr>current = NoToken, pending = [StartDocument, StartElement ''foo'' []]\<rparr> ''strings'' [] =
       (False, \<lparr>current = StartElement ''foo'' [], pending = []\<rparr>,
        [''Invalid XML: expected tag <strings>, got <foo>''])
   \<and> isStartElement \<lparr>current = StartElement ''foo'' [], pending = []\<rparr>
   \<and> xmlName \<lparr>current = StartElement ''foo'' [], pending = []\<rparr> \<noteq> ''strings''"
proof -
  have h: "readOpenTag \<lparr>current = NoToken, pending = [StartDocument, StartElement ''foo'' []]\<rparr> ''strings'' [] =
       (False, \<lparr>current = StartElement ''foo'' [], pending = []\<rparr>,
        [''Invalid XML: expected tag <strings>, got <foo>''])"
    by code_simp
  from h
    readOpenTag_silent_on_end_tokens
      [where c = "StartElement ''group'' [(''id'', ''0'')]" and tag = "''string''"
         and skipped = "[Characters '' '', Comment]" and t = "EndElement ''group''"
         and n = "''group''" and ts = "[EndElement ''strings'']" and logger = "[]"]
    readOpenTag_silent_on_end_tokens
      [where tag = "''strings''" and logger = "[]"
         and xml = "\<lparr>current = NoToken, pending = [StartDocument, StartElement ''foo'' []]\<rparr>"
         and ok = False and xml' = "\<lparr>current = StartElement ''foo'' [], pending = []\<rparr>"
         and logger' = "[''Invalid XML: expected tag <strings>, got <foo>'']"]
  show ?thesis by (simp add: isStartElement_def xmlName_def atEnd_def)
qed

text \<open>
  C3. Writing a well-formed document \<open>D\<close> succeeds, and reading what was written into a
  fresh document succeeds, logs nothing and yields \<open>D\<close>: the same name, the same flag
  and the same groups with their ids and strings in order. The white space of
  auto-formatting is in the token stream and the reader passes over it. The writer and
  the tokenizer are taken as inverse to each other on tokens; escaping and byte
  encoding are theirs.
\<close>

theorem write_then_read_roundtrip:
  assumes "wellFormed D"
  shows "fst (write_TextFile D (Readable old) logger) \<and>
         read TextFile_new (fst (snd (write_TextFile D (Readable old) logger))) logger =
           (True, D, logger)"
proof -
  have "read TextFile_new (Readable (documentTokens D)) logger = (True, D, logger)"
    using read_documentTokens [OF assms, of TextFile_new logger]
    by (simp add: TextFile_new_def)
  then show ?thesis by (simp add: write_TextFile_written)
qed

theorem write_then_read_roundtrip_witness:
  "wellFormed \<lparr>m_name = ''names'', m_indexWithCounts = False,
               m_groups = [\<lparr>m_id = 3, m_strings = [''a <b>'', '''']\<rparr>, \<lparr>m_id = - 1, m_strings = []\<rparr>,
                           \<lparr>m_id = 3, m_strings = [''c'']\<rparr>]\<rparr>
   \<and> read TextFile_new
        (fst (snd (write_TextFile
           \<lparr>m_name = ''names'', m_indexWithCounts = False,
            m_groups = [\<lparr>m_id = 3, m_strings = [''a <b>'', '''']\<rparr>, \<lparr>m_id = - 1, m_strings = []\<rparr>,
                        \<lparr>m_id = 3, m_strings = [''c'']\<rparr>]\<rparr>
           (Readable []) []))) [] =
       (True,
        \<lparr>m_name = ''names'', m_indexWithCounts = False,
         m_groups = [\<lparr>m_id = 3, m_strings = [''a <b>'', '''']\<rparr>, \<lparr>m_id = - 1, m_strings = []\<rparr>,
                     \<lparr>m_id = 3, m_strings = [''c'']\<rparr>]\<rparr>, [])"
proof -
  have wf: "wellFormed \<lparr>m_name = ''names'', m_indexWithCounts = False,
               m_groups = [\<lparr>m_id = 3, m_strings = [''a <b>'', '''']\<rparr>, \<lparr>m_id = - 1, m_strings = []\<rparr>,
                           \<lparr>m_id = 3, m_strings = [''c'']\<rparr>]\<rparr>"
    by (simp add: wellFormed_def)
  from wf write_then_read_roundtrip [OF wf, of "[]" "[]"] show ?thesis by simp
qed

text \<open>
  C4. The claim: every \<open>string\<close> element of a group has to carry the number of strings
  added before it as its id, and the read fails otherwise. \<open>readGroup\<close> tests the id of
  each element its loop reaches: ids 0, 1, 3 are rejected with
  \<open>Strings in group 7 are not ordered properly\<close>. But the loop takes every failure of
  \<open>readOpenTag\<close> as the end of the strings: with an element \<open><x/>\<close> before the string
  numbered 3, \<open>readOpenTag\<close> logs the foreign element, the loop ends, the group is
  appended with two strings, \<open>readCloseTag\<close> passes over the string numbered 3, and
  \<open>read\<close> returns success.
\<close>

theorem read_accepts_misnumbered_string_behind_foreign_element:
  "read TextFile_new
     (Readable [StartDocument, StartElement ''strings'' [],
                StartElement ''group'' [(''id'', ''7'')],
                StartElement ''string'' [(''id'', ''0'')], Characters ''a'', EndElement ''string'',
                StartElement ''string'' [(''id'', ''1'')], Characters ''b'', EndElement ''string'',
                StartElement ''x'' [], EndElement ''x'',
                StartElement ''string'' [(''id'', ''3'')], Characters ''c'', EndElement ''string'',
                EndElement ''group'', EndElement ''strings'', EndDocument]) [] =
     (True,
      \<lparr>m_name = [], m_indexWithCounts = True, m_groups = [\<lparr>m_id = 7, m_strings = [''a'', ''b'']\<rparr>]\<rparr>,
      [''Invalid XML: expected tag <string>, got <x>''])
   \<and> read TextFile_new
     (Readable [StartDocument, StartElement ''strings'' [],
                StartElement ''group'' [(''id'', ''7'')],
                StartElement ''string'' [(''id'', ''0'')], Characters ''a'', EndElement ''string'',
                StartElement ''string'' [(''id'', ''1'')], Characters ''b'', EndElement ''string'',
                StartElement ''string'' [(''id'', ''3'')], Characters ''c'', EndElement ''string'',
                EndElement ''group'', EndElement ''strings'', EndDocument]) [] =
     (False, TextFile_new, [''Strings in group 7 are not ordered properly''])"
  by code_simp

text \<open>
  C5. The claim: a failed \<open>read\<close> leaves no partial content in the document. It does:
  on a document whose second group numbers its first string 1, \<open>read\<close> fails, and the
  document holds the name and flag of the root and the first group.
\<close>

theorem read_failure_leaves_partial_document:
  "read TextFile_new
     (Readable [StartDocument,
                StartElement ''strings'' [(''name'', ''x''), (''indexWithCounts'', ''false'')],
                StartElement ''group'' [(''id'', ''4'')],
                StartElement ''string'' [(''id'', ''0'')], Characters ''hi'', EndElement ''string'',
                EndElement ''group'',
                StartElement ''group'' [(''id'', ''5'')],
                StartElement ''string'' [(''id'', ''1'')], Characters ''oops'', EndElement ''string'',
                EndElement ''group'',
                EndElement ''strings'', EndDocument]) [] =
   (False,
    \<lparr>m_name = ''x'', m_indexWithCounts = False, m_groups = [\<lparr>m_id = 4, m_strings = [''hi'']\<rparr>]\<rparr>,
    [''Strings in group 5 are not ordered properly''])"
  by code_simp

text \<open>
  C5, as amended. \<open>read\<close> does not roll the document back. The document is left as it
  was when the device cannot be opened, and when the root \<open>strings\<close> element is not
  found. When the root element is found, then, whether \<open>read\<close> fails or succeeds, the
  name and the flag of the document are those given by the attributes \<open>name\<close> and
  \<open>indexWithCounts\<close> of the root (each as it was before when its attribute is absent),
  and the groups that the document held before are kept, in order, at the front of its
  groups.
\<close>

theorem read_failure_document_contents:
  "read doc (Unopenable e) logger =
     (False, doc, logger @ [''Unable to open XML file for reading: '' @ e])
   \<and> (readOpenTag \<lparr>current = NoToken, pending = ts\<rparr> ''strings'' logger = (False, xmlr, loggerr)
      \<longrightarrow> read doc (Readable ts) logger =
            (False, doc, loggerr @ [''Unable to find root <strings> element'']))
   \<and> (readOpenTag \<lparr>current = NoToken, pending = ts\<rparr> ''strings'' logger = (True, root, loggerr) \<and>
      read doc (Readable ts) logger = (ok, doc', logger')
      \<longrightarrow> m_name doc' =
            (case map_of (attributes root) ''name'' of None \<Rightarrow> m_name doc | Some v \<Rightarrow> v) \<and>
          m_indexWithCounts doc' =
            (case map_of (attributes root) ''indexWithCounts'' of
               None \<Rightarrow> m_indexWithCounts doc
             | Some v \<Rightarrow> v \<noteq> ''false'') \<and>
          take (length (m_groups doc)) (m_groups doc') = m_groups doc)"
proof (intro conjI impI)
  show "read doc (Unopenable e) logger =
     (False, doc, logger @ [''Unable to open XML file for reading: '' @ e])"
    by (simp add: read_def)
next
  assume "readOpenTag \<lparr>current = NoToken, pending = ts\<rparr> ''strings'' logger = (False, xmlr, loggerr)"
  then show "read doc (Readable ts) logger =
            (False, doc, loggerr @ [''Unable to find root <strings> element''])"
    by (simp add: read_def readFile_def)
next
  assume a: "readOpenTag \<lparr>current = NoToken, pending = ts\<rparr> ''strings'' logger = (True, root, loggerr) \<and>
      read doc (Readable ts) logger = (ok, doc', logger')"
  let ?doc1 = "if hasAttribute (attributes root) ''name''
               then doc\<lparr>m_name := attrValue (attributes root) ''name''\<rparr> else doc"
  let ?doc2 = "if hasAttribute (attributes root) ''indexWithCounts''
               then ?doc1\<lparr>m_indexWithCounts :=
                            (attrValue (attributes root) ''indexWithCounts'' \<noteq> ''false'')\<rparr>
               else ?doc1"
  obtain xml' where l: "readFile_loop ?doc2 root loggerr = (ok, doc', xml', logger')"
    using a by (cases "readFile_loop ?doc2 root loggerr")
               (auto simp: read_def readFile_def Let_def)
  from readFile_loop_keeps [OF l]
  have k: "m_name doc' = m_name ?doc2" "m_indexWithCounts doc' = m_indexWithCounts ?doc2"
    by simp_all
  from readFile_loop_appends [OF l]
  obtain gs where g: "m_groups doc' = m_groups ?doc2 @ gs" by auto
  from k(1) show "m_name doc' =
            (case map_of (attributes root) ''name'' of None \<Rightarrow> m_name doc | Some v \<Rightarrow> v)"
    by (cases "map_of (attributes root) ''name''")
       (simp_all add: hasAttribute_def attrValue_def)
  from k(2) show "m_indexWithCounts doc' =
            (case map_of (attributes root) ''indexWithCounts'' of
               None \<Rightarrow> m_indexWithCounts doc
             | Some v \<Rightarrow> v \<noteq> ''false'')"
    by (cases "map_of (attributes root) ''indexWithCounts''")
       (simp_all add: hasAttribute_def attrValue_def)
  from g show "take (length (m_groups doc)) (m_groups doc') = m_groups doc"
    by simp
qed

theorem read_failure_document_contents_witness:
  "read TextFile_new
     (Readable [StartDocument, StartElement ''foo'' [], EndElement ''foo'', EndDocument]) [] =
     (False, TextFile_new,
      [''Invalid XML: expected tag <strings>, got <foo>'', ''Unable to find root <strings> element''])
   \<and> read TextFile_new
     (Readable [StartDocument,
                StartElement ''strings'' [(''name'', ''x''), (''indexWithCounts'', ''false'')],
                StartElement ''group'' [(''id'', ''4'')],
                StartElement ''string'' [(''id'', ''0'')], Characters ''hi'', EndElement ''string'',
                EndElement ''group'',
                StartElement ''group'' [(''id'', ''5'')],
                StartElement ''string'' [(''id'', ''1'')], Characters ''oops'', EndElement ''string'',
                EndElement ''group'',
                EndElement ''strings'', EndDocument]) [] =
     (False,
      \<lparr>m_name = ''x'', m_indexWithCounts = False, m_groups = [\<lparr>m_id = 4, m_strings = [''hi'']\<rparr>]\<rparr>,
      [''Strings in group 5 are not ordered properly''])
   \<and> take (length (m_groups TextFile_new))
        (m_groups \<lparr>m_name = ''x'', m_indexWithCounts = False,
                   m_groups = [\<lparr>m_id = 4, m_strings = [''hi'']\<rparr>]\<rparr>) = m_groups TextFile_new"
proof -
  let ?foo = "[StartDocument, StartElement ''foo'' [], EndElement ''foo'', EndDocument]"
  let ?ts = "[StartDocument,
                StartElement ''strings'' [(''name'', ''x''), (''indexWithCounts'', ''false'')],
                StartElement ''group'' [(''id'', ''4'')],
                StartElement ''string'' [(''id'', ''0'')], Characters ''hi'', EndElement ''string'',
                EndElement ''group'',
                StartElement ''group'' [(''id'', ''5'')],
                StartElement ''string'' [(''id'', ''1'')], Characters ''oops'', EndElement ''string'',
                EndElement ''group'',
                EndElement ''strings'', EndDocument]"
  let ?root = "\<lparr>current = StartElement ''strings'' [(''name'', ''x''), (''indexWithCounts'', ''false'')],
               pending = tl (tl ?ts)\<rparr>"
  let ?doc' = "\<lparr>m_name = ''x'', m_indexWithCounts = False,
                m_groups = [\<lparr>m_id = 4, m_strings = [''hi'']\<rparr>]\<rparr>"
  have a: "readOpenTag \<lparr>current = NoToken, pending = ?foo\<rparr> ''strings'' [] =
     (False, \<lparr>current = StartElement ''foo'' [], pending = [EndElement ''foo'', EndDocument]\<rparr>,
      [''Invalid XML: expected tag <strings>, got <foo>''])"
    by code_simp
  have b: "readOpenTag \<lparr>current = NoToken, pending = ?ts\<rparr> ''strings'' [] = (True, ?root, [])"
    by code_simp
  have c: "read TextFile_new (Readable ?ts) [] =
     (False, ?doc', [''Strings in group 5 are not ordered properly''])"
    by code_simp
  from a b c
    read_failure_document_contents
      [where ts = ?foo and logger = "[]" and doc = TextFile_new
         and xmlr = "\<lparr>current = StartElement ''foo'' [], pending = [EndElement ''foo'', EndDocument]\<rparr>"
         and loggerr = "[''Invalid XML: expected tag <strings>, got <foo>'']"]
    read_failure_document_contents
      [where ts = ?ts and logger = "[]" and doc = TextFile_new and root = ?root and loggerr = "[]"
         and ok = False and doc' = ?doc'
         and logger' = "[''Strings in group 5 are not ordered properly'']"]
  show ?thesis by simp
qed

text \<open>
  C6. When the tokenizer reports an invalid token, \<open>readOpenTag\<close> fails and logs a
  malformed-XML error. The claim has the logged message carry the tokenizer's error
  string; the format \<open>Invalid XML: %s\<close> holds no place marker of \<open>QString::arg\<close>, so the
  message logged is the format itself, whatever the error string \<open>e\<close> is. Here the
  invalid token is the first one after the start of the document.
\<close>

theorem readOpenTag_invalid_logs_bare_format:
  "readOpenTag \<lparr>current = NoToken, pending = StartDocument # Invalid e # ts\<rparr> tag logger =
     (False, \<lparr>current = Invalid e, pending = ts\<rparr>, logger @ [''Invalid XML: %s''])"
proof -
  have "readOpenTag_loop \<lparr>current = NoToken, pending = [StartDocument] @ Invalid e # ts\<rparr> tag logger =
     (False, \<lparr>current = Invalid e, pending = ts\<rparr>, logger @ [''Invalid XML: %s''])"
    by (subst readOpenTag_loop_skips) simp_all
  then show ?thesis by (simp add: readOpenTag_def isStartElement_def)
qed

text \<open>
  C7. \<open>readFile\<close> sets the flag from the attribute \<open>indexWithCounts\<close> of the root element
  when it is there, to false for the value \<open>false\<close> and to true for any other, and
  leaves the flag of the document alone when it is not there. So, reading into a
  document whose flag is set, as that of a fresh \<open>TextFile\<close> is, the flag of the result
  is false exactly when the attribute is there with the value \<open>false\<close>, and true when
  it is absent or has any other value. This holds whether or not the rest of the read
  succeeds.
\<close>

theorem readFile_indexWithCounts:
  assumes "readOpenTag xml ''strings'' logger = (True, root, loggerr)"
    and "readFile doc xml logger = (ok, doc', xml', logger')"
  shows "m_indexWithCounts doc' =
           (case map_of (attributes root) ''indexWithCounts'' of
              None \<Rightarrow> m_indexWithCounts doc
            | Some v \<Rightarrow> v \<noteq> ''false'')
         \<and> (m_indexWithCounts doc \<longrightarrow>
              (m_indexWithCounts doc' \<longleftrightarrow>
                 map_of (attributes root) ''indexWithCounts'' \<noteq> Some ''false''))"
proof -
  let ?doc1 = "if hasAttribute (attributes root) ''name''
               then doc\<lparr>m_name := attrValue (attributes root) ''name''\<rparr> else doc"
  let ?doc2 = "if hasAttribute (attributes root) ''indexWithCounts''
               then ?doc1\<lparr>m_indexWithCounts :=
                            (attrValue (attributes root) ''indexWithCounts'' \<noteq> ''false'')\<rparr>
               else ?doc1"
  from assms have "readFile_loop ?doc2 root loggerr = (ok, doc', xml', logger')"
    by (simp add: readFile_def Let_def)
  from readFile_loop_keeps [OF this]
  have "m_indexWithCounts doc' = m_indexWithCounts ?doc2" by simp
  then show ?thesis
    by (cases "map_of (attributes root) ''indexWithCounts''")
       (simp_all add: hasAttribute_def attrValue_def)
qed

theorem readFile_indexWithCounts_witness:
  "m_indexWithCounts TextFile_new
   \<and> readFile TextFile_new
       \<lparr>current = NoToken,
        pending = [StartDocument, StartElement ''strings'' [(''indexWithCounts'', ''false'')],
                   EndElement ''strings'', EndDocument]\<rparr> [] =
       (True, \<lparr>m_name = [], m_indexWithCounts = False, m_groups = []\<rparr>,
        \<lparr>current = EndElement ''strings'', pending = [EndDocument]\<rparr>, [])
   \<and> readFile TextFile_new
       \<lparr>current = NoToken,
        pending = [StartDocument, StartElement ''strings'' [(''indexWithCounts'', ''no'')],
                   EndElement ''strings'', EndDocument]\<rparr> [] =
       (True, \<lparr>m_name = [], m_indexWithCounts = True, m_groups = []\<rparr>,
        \<lparr>current = EndElement ''strings'', pending = [EndDocument]\<rparr>, [])
   \<and> readFile TextFile_new
       \<lparr>current = NoToken,
        pending = [StartDocument, StartElement ''strings'' [],
                   StartElement ''group'' [(''id'', ''0'')], EndElement ''group'',
                   EndElement ''strings'', EndDocument]\<rparr> [] =
       (True, \<lparr>m_name = [], m_indexWithCounts = True, m_groups = [\<lparr>m_id = 0, m_strings = []\<rparr>]\<rparr>,
        \<lparr>current = EndElement ''strings'', pending = [EndDocument]\<rparr>, [])"
proof -
  let ?x1 = "\<lparr>current = NoToken,
        pending = [StartDocument, StartElement ''strings'' [(''indexWithCounts'', ''false'')],
                   EndElement ''strings'', EndDocument]\<rparr>"
  let ?x2 = "\<lparr>current = NoToken,
        pending = [StartDocument, StartElement ''strings'' [(''indexWithCounts'', ''no'')],
                   EndElement ''strings'', EndDocument]\<rparr>"
  let ?x3 = "\<lparr>current = NoToken,
        pending = [StartDocument, StartElement ''strings'' [],
                   StartElement ''group'' [(''id'', ''0'')], EndElement ''group'',
                   EndElement ''strings'', EndDocument]\<rparr>"
  have d: "m_indexWithCounts TextFile_new" by (simp add: TextFile_new_def)
  have a1: "readOpenTag ?x1 ''strings'' [] =
       (True, \<lparr>current = StartElement ''strings'' [(''indexWithCounts'', ''false'')],
               pending = [EndElement ''strings'', EndDocument]\<rparr>, [])"
    by code_simp
  have a2: "readOpenTag ?x2 ''strings'' [] =
       (True, \<lparr>current = StartElement ''strings'' [(''indexWithCounts'', ''no'')],
               pending = [EndElement ''strings'', EndDocument]\<rparr>, [])"
    by code_simp
  have a3: "readOpenTag ?x3 ''strings'' [] =
       (True, \<lparr>current = StartElement ''strings'' [],
               pending = [StartElement ''group'' [(''id'', ''0'')], EndElement ''group'',
                          EndElement ''strings'', EndDocument]\<rparr>, [])"
    by code_simp
  have r1: "readFile TextFile_new ?x1 [] =
       (True, \<lparr>m_name = [], m_indexWithCounts = False, m_groups = []\<rparr>,
        \<lparr>current = EndElement ''strings'', pending = [EndDocument]\<rparr>, [])"
    by code_simp
  have r2: "readFile TextFile_new ?x2 [] =
       (True, \<lparr>m_name = [], m_indexWithCounts = True, m_groups = []\<rparr>,
        \<lparr>current = EndElement ''strings'', pending = [EndDocument]\<rparr>, [])"
    by code_simp
  have r3: "readFile TextFile_new ?x3 [] =
       (True, \<lparr>m_name = [], m_indexWithCounts = True, m_groups = [\<lparr>m_id = 0, m_strings = []\<rparr>]\<rparr>,
        \<lparr>current = EndElement ''strings'', pending = [EndDocument]\<rparr>, [])"
    by code_simp
  from readFile_indexWithCounts [OF a1 r1] readFile_indexWithCounts [OF a2 r2]
    readFile_indexWithCounts [OF a3 r3] d r1 r2 r3
  show ?thesis by simp
qed

text \<open>
  C8. \<open>readCloseTag\<close> succeeds at once on a matching end element. Otherwise it passes
  over every token that is neither the requested end element nor the end of the stream
  (start and end elements of other names included) and succeeds on the first end
  element of the requested name. If the stream ends first (the end of the document, an
  invalid token, or input that stops), or had ended when the call began, it fails and
  logs \<open>Invalid XML: end element </tag> not found\<close>.
\<close>

theorem readCloseTag_skips_until_matching_end:
  "readCloseTag \<lparr>current = EndElement tag, pending = ts\<rparr> tag logger =
     (True, \<lparr>current = EndElement tag, pending = ts\<rparr>, logger)
   \<and> (c \<noteq> EndElement tag \<and> \<not> atEndToken c \<and>
      (\<forall>s\<in>set skipped. s \<noteq> EndElement tag \<and> \<not> atEndToken s)
      \<longrightarrow> readCloseTag \<lparr>current = c, pending = skipped @ EndElement tag # ts\<rparr> tag logger =
            (True, \<lparr>current = EndElement tag, pending = ts\<rparr>, logger))
   \<and> (c \<noteq> EndElement tag \<and> \<not> atEndToken c \<and>
      (\<forall>s\<in>set skipped. s \<noteq> EndElement tag \<and> \<not> atEndToken s) \<and> atEndToken e
      \<longrightarrow> readCloseTag \<lparr>current = c, pending = skipped @ e # ts\<rparr> tag logger =
            (False, \<lparr>current = e, pending = ts\<rparr>,
             logger @ [''Invalid XML: end element </'' @ tag @ ''> not found'']))
   \<and> (c \<noteq> EndElement tag \<and> \<not> atEndToken c \<and>
      (\<forall>s\<in>set skipped. s \<noteq> EndElement tag \<and> \<not> atEndToken s)
      \<longrightarrow> readCloseTag \<lparr>current = c, pending = skipped\<rparr> tag logger =
            (False, \<lparr>current = Invalid ''Premature end of document.'', pending = []\<rparr>,
             logger @ [''Invalid XML: end element </'' @ tag @ ''> not found'']))
   \<and> (atEndToken c
      \<longrightarrow> readCloseTag \<lparr>current = c, pending = ts\<rparr> tag logger =
            (False, \<lparr>current = c, pending = ts\<rparr>,
             logger @ [''Invalid XML: end element </'' @ tag @ ''> not found'']))"
proof (intro conjI impI)
  show "readCloseTag \<lparr>current = EndElement tag, pending = ts\<rparr> tag logger =
     (True, \<lparr>current = EndElement tag, pending = ts\<rparr>, logger)"
    by (simp add: readCloseTag_def isEndElement_def xmlName_def)
next
  assume "c \<noteq> EndElement tag \<and> \<not> atEndToken c \<and>
      (\<forall>s\<in>set skipped. s \<noteq> EndElement tag \<and> \<not> atEndToken s)"
  then show "readCloseTag \<lparr>current = c, pending = skipped @ EndElement tag # ts\<rparr> tag logger =
            (True, \<lparr>current = EndElement tag, pending = ts\<rparr>, logger)"
    by (cases c) (auto simp: readCloseTag_def isEndElement_def xmlName_def readCloseTag_loop_scans)
next
  assume "c \<noteq> EndElement tag \<and> \<not> atEndToken c \<and>
      (\<forall>s\<in>set skipped. s \<noteq> EndElement tag \<and> \<not> atEndToken s) \<and> atEndToken e"
  then show "readCloseTag \<lparr>current = c, pending = skipped @ e # ts\<rparr> tag logger =
            (False, \<lparr>current = e, pending = ts\<rparr>,
             logger @ [''Invalid XML: end element </'' @ tag @ ''> not found''])"
    by (cases c)
       (auto simp: readCloseTag_def isEndElement_def xmlName_def readCloseTag_loop_stream_end)
next
  assume "c \<noteq> EndElement tag \<and> \<not> atEndToken c \<and>
      (\<forall>s\<in>set skipped. s \<noteq> EndElement tag \<and> \<not> atEndToken s)"
  then show "readCloseTag \<lparr>current = c, pending = skipped\<rparr> tag logger =
            (False, \<lparr>current = Invalid ''Premature end of document.'', pending = []\<rparr>,
             logger @ [''Invalid XML: end element </'' @ tag @ ''> not found''])"
    by (cases c)
       (auto simp: readCloseTag_def isEndElement_def xmlName_def readCloseTag_loop_exhausted)
next
  assume "atEndToken c"
  then show "readCloseTag \<lparr>current = c, pending = ts\<rparr> tag logger =
            (False, \<lparr>current = c, pending = ts\<rparr>,
             logger @ [''Invalid XML: end element </'' @ tag @ ''> not found''])"
    by (cases c)
       (auto simp: readCloseTag_def isEndElement_def xmlName_def readCloseTag_loop_atEnd atEnd_def)
qed

theorem readCloseTag_skips_until_matching_end_witness:
  "readCloseTag
     \<lparr>current = StartElement ''group'' [],
      pending = [StartElement ''x'' [], EndElement ''y'', Characters ''t'', EndElement ''group'', EndDocument]\<rparr>
     ''group'' [] =
     (True, \<lparr>current = EndElement ''group'', pending = [EndDocument]\<rparr>, [])
   \<and> readCloseTag
     \<lparr>current = StartElement ''group'' [],
      pending = [StartElement ''x'' [], EndElement ''y'', EndDocument, EndElement ''group'']\<rparr>
     ''group'' [] =
     (False, \<lparr>current = EndDocument, pending = [EndElement ''group'']\<rparr>,
      [''Invalid XML: end element </group> not found''])
   \<and> readCloseTag \<lparr>current = StartElement ''group'' [], pending = [Comment]\<rparr> ''group'' [] =
     (False, \<lparr>current = Invalid ''Premature end of document.'', pending = []\<rparr>,
      [''Invalid XML: end element </group> not found''])
   \<and> readCloseTag \<lparr>current = EndDocument, pending = []\<rparr> ''group'' [] =
     (False, \<lparr>current = EndDocument, pending = []\<rparr>,
      [''Invalid XML: end element </group> not found''])"
  using
    readCloseTag_skips_until_matching_end
      [of "''group''" "[EndDocument]" "[]" "StartElement ''group'' []"
          "[StartElement ''x'' [], EndElement ''y'', Characters ''t'']" EndDocument]
    readCloseTag_skips_until_matching_end
      [of "''group''" "[EndElement ''group'']" "[]" "StartElement ''group'' []"
          "[StartElement ''x'' [], EndElement ''y'']" EndDocument]
    readCloseTag_skips_until_matching_end
      [of "''group''" "[]" "[]" "StartElement ''group'' []" "[Comment]" EndDocument]
    readCloseTag_skips_until_matching_end
      [of "''group''" "[]" "[]" "EndDocument" "[]" EndDocument]
  by simp

text \<open>
  C9. The claim: the id of a \<open>group\<close> element has to be there, has to parse as an integer,
  and an accepted id is not negative. The last part fails: \<open>toInt\<close> takes a sign, and
  \<open>readGroup\<close> does not look at the sign of what it parsed, so \<open>id="-5"\<close> is accepted.
\<close>

theorem read_accepts_negative_group_id:
  "read TextFile_new
     (Readable [StartDocument, StartElement ''strings'' [],
                StartElement ''group'' [(''id'', ''-5'')], EndElement ''group'',
                EndElement ''strings'', EndDocument]) [] =
   (True, \<lparr>m_name = [], m_indexWithCounts = True, m_groups = [\<lparr>m_id = - 5, m_strings = []\<rparr>]\<rparr>,
    [])"
  by code_simp

text \<open>
  C9, as amended. A \<open>group\<close> element without an \<open>id\<close> attribute fails with
  \<open>Group does not have an ID attribute\<close>; an \<open>id\<close> that \<open>toInt\<close> rejects fails with
  \<open>Group ID is not an integer:\<close> followed by the value; and a group that is accepted has
  the id attribute, is appended to the document, and carries the parsed value as its
  id, a 32-bit signed integer that may be negative.
\<close>

theorem readGroup_id_attribute:
  "(\<not> hasAttribute (attributes xml) ''id''
      \<longrightarrow> readGroup doc xml logger =
            (False, doc, xml, logger @ [''Group does not have an ID attribute'']))
   \<and> (hasAttribute (attributes xml) ''id'' \<and> toInt (attrValue (attributes xml) ''id'') = None
      \<longrightarrow> readGroup doc xml logger =
            (False, doc, xml,
             logger @ [''Group ID is not an integer: '' @ attrValue (attributes xml) ''id'']))
   \<and> (readGroup doc xml logger = (True, doc', xml', logger')
      \<longrightarrow> hasAttribute (attributes xml) ''id'' \<and>
          (\<exists>g. doc' = doc\<lparr>m_groups := m_groups doc @ [g]\<rparr> \<and>
               toInt (attrValue (attributes xml) ''id'') = Some (m_id g) \<and>
               - 2147483648 \<le> m_id g \<and> m_id g \<le> 2147483647))"
proof (intro conjI impI)
  assume "\<not> hasAttribute (attributes xml) ''id''"
  then show "readGroup doc xml logger =
            (False, doc, xml, logger @ [''Group does not have an ID attribute''])"
    by (simp add: readGroup_def)
next
  assume "hasAttribute (attributes xml) ''id'' \<and> toInt (attrValue (attributes xml) ''id'') = None"
  then show "readGroup doc xml logger =
            (False, doc, xml,
             logger @ [''Group ID is not an integer: '' @ attrValue (attributes xml) ''id''])"
    by (simp add: readGroup_def)
next
  assume r: "readGroup doc xml logger = (True, doc', xml', logger')"
  then show "hasAttribute (attributes xml) ''id''"
    by (auto simp: readGroup_def split: if_splits)
  from readGroup_result [OF r]
  obtain g where g: "toInt (attrValue (attributes xml) ''id'') = Some (m_id g)"
    "doc' = doc\<lparr>m_groups := m_groups doc @ [g]\<rparr>" by auto
  from toInt_range [OF g(1)] g
  show "\<exists>g. doc' = doc\<lparr>m_groups := m_groups doc @ [g]\<rparr> \<and>
               toInt (attrValue (attributes xml) ''id'') = Some (m_id g) \<and>
               - 2147483648 \<le> m_id g \<and> m_id g \<le> 2147483647"
    by auto
qed

theorem readGroup_id_attribute_witness:
  "readGroup TextFile_new \<lparr>current = StartElement ''group'' [(''name'', ''a'')], pending = []\<rparr> [] =
     (False, TextFile_new, \<lparr>current = StartElement ''group'' [(''name'', ''a'')], pending = []\<rparr>,
      [''Group does not have an ID attribute''])
   \<and> readGroup TextFile_new \<lparr>current = StartElement ''group'' [(''id'', ''12a'')], pending = []\<rparr> [] =
     (False, TextFile_new, \<lparr>current = StartElement ''group'' [(''id'', ''12a'')], pending = []\<rparr>,
      [''Group ID is not an integer: 12a''])
   \<and> hasAttribute (attributes \<lparr>current = StartElement ''group'' [(''id'', ''-5'')], pending = [EndElement ''group'']\<rparr>) ''id''
   \<and> (\<exists>g. \<lparr>m_name = [], m_indexWithCounts = True, m_groups = [\<lparr>m_id = - 5, m_strings = []\<rparr>]\<rparr> =
            TextFile_new\<lparr>m_groups := m_groups TextFile_new @ [g]\<rparr> \<and>
          toInt ''-5'' = Some (m_id g) \<and> - 2147483648 \<le> m_id g \<and> m_id g \<le> 2147483647)"
proof -
  have a: "\<not> hasAttribute (attributes \<lparr>current = StartElement ''group'' [(''name'', ''a'')], pending = []\<rparr>) ''id''"
    by (simp add: hasAttribute_def attributes_def)
  have b: "hasAttribute (attributes \<lparr>current = StartElement ''group'' [(''id'', ''12a'')], pending = []\<rparr>) ''id'' \<and>
           toInt (attrValue (attributes \<lparr>current = StartElement ''group'' [(''id'', ''12a'')], pending = []\<rparr>) ''id'') = None"
    by code_simp
  have c: "readGroup TextFile_new
     \<lparr>current = StartElement ''group'' [(''id'', ''-5'')], pending = [EndElement ''group'']\<rparr> [] =
   (True, \<lparr>m_name = [], m_indexWithCounts = True, m_groups = [\<lparr>m_id = - 5, m_strings = []\<rparr>]\<rparr>,
    \<lparr>current = EndElement ''group'', pending = []\<rparr>, [])"
    by code_simp
  from a b c
    readGroup_id_attribute
      [where xml = "\<lparr>current = StartElement ''group'' [(''name'', ''a'')], pending = []\<rparr>"
         and doc = TextFile_new and logger = "[]"]
    readGroup_id_attribute
      [where xml = "\<lparr>current = StartElement ''group'' [(''id'', ''12a'')], pending = []\<rparr>"
         and doc = TextFile_new and logger = "[]"]
    readGroup_id_attribute
      [where xml = "\<lparr>current = StartElement ''group'' [(''id'', ''-5'')], pending = [EndElement ''group'']\<rparr>"
         and doc = TextFile_new and logger = "[]"
         and doc' = "\<lparr>m_name = [], m_indexWithCounts = True, m_groups = [\<lparr>m_id = - 5, m_strings = []\<rparr>]\<rparr>"
         and xml' = "\<lparr>current = EndElement ''group'', pending = []\<rparr>" and logger' = "[]"]
  show ?thesis by (simp add: attributes_def attrValue_def)
qed

text \<open>
  C10. The claim: for every \<open>string\<close> element without an \<open>id\<close> attribute the read fails,
  with the error \<open>String ID is not an integer:\<close> and the empty value. It does for an
  element that the loop of \<open>readGroup\<close> reaches. With an element \<open><x/>\<close> before it,
  \<open>readOpenTag\<close> logs the foreign element, the loop ends, \<open>readCloseTag\<close> passes over
  the string without id, and \<open>read\<close> returns success.
\<close>

theorem read_accepts_string_without_id_behind_foreign_element:
  "read TextFile_new
     (Readable [StartDocument, StartElement ''strings'' [],
                StartElement ''group'' [(''id'', ''4'')],
                StartElement ''x'' [], EndElement ''x'',
                StartElement ''string'' [], Characters ''b'', EndElement ''string'',
                EndElement ''group'', EndElement ''strings'', EndDocument]) [] =
     (True,
      \<lparr>m_name = [], m_indexWithCounts = True, m_groups = [\<lparr>m_id = 4, m_strings = []\<rparr>]\<rparr>,
      [''Invalid XML: expected tag <string>, got <x>''])
   \<and> read TextFile_new
     (Readable [StartDocument, StartElement ''strings'' [],
                StartElement ''group'' [(''id'', ''4'')],
                StartElement ''string'' [], Characters ''b'', EndElement ''string'',
                EndElement ''group'', EndElement ''strings'', EndDocument]) [] =
     (False, TextFile_new, [''String ID is not an integer: ''])"
  by code_simp

end
